theory Spec2Isabelle
  imports Complex_Main
begin

section \<open>JavaScript numbers\<close>

text \<open>
  A JavaScript number is an IEEE 754 binary64 value. A finite double is modelled as the
  real number it denotes, and an arithmetic operation as the exact result rounded to the
  nearest double, ties to the even significand, with gradual underflow: \<open>round64\<close>.
  The grid a number is rounded on has the spacing \<open>2 ^ ulp_exp x\<close>: 52 binary places
  below the leading bit of \<open>x\<close>, and never finer than \<open>2 ^ -1074\<close>. The two zeros are
  one value. Infinities and NaN are not values of the model: a result of magnitude
  \<open>2 ^ 1024\<close> or more stands for an infinity, and NaN does not arise from finite operands in
  the operations used here. \<open>Math.sqrt\<close> is the correctly rounded square root and
  \<open>Math.pow(d, 2)\<close> the correctly rounded product \<open>d * d\<close>, as the engines compute them.
\<close>

definition rne :: "real \<Rightarrow> int" where
  \<comment> \<open>the nearest integer, a tie going to the even one\<close>
  "rne r = (let f = \<lfloor>r\<rfloor>; d = r - of_int f
            in if d < 1/2 then f else if 1/2 < d then f + 1 else if even f then f else f + 1)"

definition expo :: "real \<Rightarrow> int" where
  "expo x = \<lfloor>log 2 \<bar>x\<bar>\<rfloor>"

definition ulp_exp :: "real \<Rightarrow> int" where
  "ulp_exp x = max (expo x - 52) (- 1074)"

definition round64 :: "real \<Rightarrow> real" where
  "round64 x = (if x = 0 then 0
                else of_int (rne (x / 2 powr of_int (ulp_exp x))) * 2 powr of_int (ulp_exp x))"

definition js_add :: "real \<Rightarrow> real \<Rightarrow> real" where
  "js_add a b = round64 (a + b)"

definition js_sub :: "real \<Rightarrow> real \<Rightarrow> real" where
  "js_sub a b = round64 (a - b)"

definition js_mul :: "real \<Rightarrow> real \<Rightarrow> real" where
  "js_mul a b = round64 (a * b)"

definition js_sqrt :: "real \<Rightarrow> real" where
  \<comment> \<open>\<open>Math.sqrt\<close>\<close>
  "js_sqrt a = round64 (sqrt a)"

definition js_pow2 :: "real \<Rightarrow> real" where
  \<comment> \<open>\<open>Math.pow(d, 2)\<close>\<close>
  "js_pow2 d = round64 (d * d)"

section \<open>Gesture evaluator (services/mediapipe: checkFingerOnHead, hasPeople)\<close>

text \<open>
  The coordinates of a landmark are JavaScript numbers. An array of landmark objects is a list
  whose entries may be \<open>undefined\<close> (\<open>None\<close>), and the array argument itself may be
  \<open>null\<close>/\<open>undefined\<close> (\<open>None\<close>). Reading a property of \<open>undefined\<close> throws a
  TypeError in JavaScript; the model keeps that as an error value, so that "does not
  raise" is a statement about the result.
\<close>

datatype js_error = TypeError

record landmark =
  lm_x :: real
  lm_y :: real

type_synonym landmarks = "landmark option list option"

definition NOSE :: nat where "NOSE = 0"
definition LEFT_INDEX :: nat where "LEFT_INDEX = 19"
definition RIGHT_INDEX :: nat where "RIGHT_INDEX = 20"

definition js_bind :: "js_error + 'a \<Rightarrow> ('a \<Rightarrow> js_error + 'b) \<Rightarrow> js_error + 'b" where
  "js_bind m f = (case m of Inl e \<Rightarrow> Inl e | Inr v \<Rightarrow> f v)"

definition js_index :: "'a option list \<Rightarrow> nat \<Rightarrow> 'a option" where
  \<comment> \<open>\<open>xs[i]\<close>: an index past the end reads \<open>undefined\<close>.\<close>
  "js_index xs i = (if i < length xs then xs ! i else None)"

fun prop_x :: "landmark option \<Rightarrow> js_error + real" where
  "prop_x None = Inl TypeError"
| "prop_x (Some p) = Inr (lm_x p)"

fun prop_y :: "landmark option \<Rightarrow> js_error + real" where
  "prop_y None = Inl TypeError"
| "prop_y (Some p) = Inr (lm_y p)"

definition getDistance :: "landmark option \<Rightarrow> landmark option \<Rightarrow> js_error + real" where
  "getDistance p1 p2 =
     js_bind (prop_x p1) (\<lambda>x1. js_bind (prop_x p2) (\<lambda>x2.
     js_bind (prop_y p1) (\<lambda>y1. js_bind (prop_y p2) (\<lambda>y2.
       Inr (js_sqrt (js_add (js_pow2 (js_sub x1 x2)) (js_pow2 (js_sub y1 y2))))))))"

definition HEAD_PROXIMITY_THRESHOLD :: real where
  \<comment> \<open>the literal \<open>0.2\<close>: the double nearest to one fifth\<close>
  "HEAD_PROXIMITY_THRESHOLD = round64 0.2"

definition handOnHead :: "landmark option \<Rightarrow> landmark option \<Rightarrow> js_error + bool" where
  \<comment> \<open>\<open>getDistance(finger, nose) < HEAD_PROXIMITY_THRESHOLD && finger.y < nose.y\<close>;
      the right operand of \<open>&&\<close> is evaluated only when the left one is true.\<close>
  "handOnHead finger nose =
     js_bind (getDistance finger nose) (\<lambda>d.
       if d < HEAD_PROXIMITY_THRESHOLD
       then js_bind (prop_y finger) (\<lambda>fy. js_bind (prop_y nose) (\<lambda>ny. Inr (fy < ny)))
       else Inr False)"

definition checkFingerOnHead :: "landmarks \<Rightarrow> js_error + bool" where
  "checkFingerOnHead lms =
     (case lms of
        None \<Rightarrow> Inr False
      | Some ls \<Rightarrow>
          if length ls = 0 then Inr False
          else
            let nose = js_index ls NOSE;
                leftIndex = js_index ls LEFT_INDEX;
                rightIndex = js_index ls RIGHT_INDEX
            in if nose = None \<or> leftIndex = None \<or> rightIndex = None then Inr False
               else
                 js_bind (handOnHead leftIndex nose) (\<lambda>leftHandOnHead.
                 js_bind (handOnHead rightIndex nose) (\<lambda>rightHandOnHead.
                   Inr (leftHandOnHead \<or> rightHandOnHead))))"

definition hasPeople :: "landmarks \<Rightarrow> bool" where
  \<comment> \<open>\<open>landmarks && landmarks.length > 0\<close>, read for its truthiness.\<close>
  "hasPeople lms = (case lms of None \<Rightarrow> False | Some ls \<Rightarrow> length ls > 0)"

text \<open>The distance the specification speaks of, written from its words: the Euclidean
  distance of two landmarks in the normalized x/y plane.\<close>

definition euclid :: "landmark \<Rightarrow> landmark \<Rightarrow> real" where
  "euclid p q = sqrt ((lm_x p - lm_x q)\<^sup>2 + (lm_y p - lm_y q)\<^sup>2)"

text \<open>The same distance with every operation rounded to a double: the two differences,
  their squares, the sum of the squares, and the square root.\<close>

definition rounded_distance :: "landmark \<Rightarrow> landmark \<Rightarrow> real" where
  "rounded_distance p q =
     round64 (sqrt (round64 (round64 ((round64 (lm_x p - lm_x q))\<^sup>2)
                               + round64 ((round64 (lm_y p - lm_y q))\<^sup>2))))"

text \<open>A 33-point frame with every landmark at the centre of the image.\<close>

definition centre :: landmark where
  "centre = \<lparr>lm_x = 1/2, lm_y = 1/2\<rparr>"

definition frame_centre :: "landmark option list" where
  "frame_centre = replicate 33 (Some centre)"

text \<open>The same frame with the left index finger an eighth of the frame above the nose.\<close>

definition frame_touch :: "landmark option list" where
  "frame_touch = frame_centre[19 := Some \<lparr>lm_x = 1/2, lm_y = 3/8\<rparr>]"

text \<open>Both index fingers a quarter of the frame above the nose: above, but too far.\<close>

definition frame_far :: "landmark option list" where
  "frame_far = frame_centre[19 := Some \<lparr>lm_x = 1/2, lm_y = 1/4\<rparr>,
                            20 := Some \<lparr>lm_x = 1/2, lm_y = 1/4\<rparr>]"

text \<open>A left index finger above the nose whose distance to it is a little less than one
  fifth (both coordinates are doubles), in a frame whose right index finger is at the nose.\<close>

definition near_finger :: landmark where
  "near_finger = \<lparr>lm_x = 6155809883551031 / 2 ^ 53, lm_y = 28205627 / 2 ^ 26\<rparr>"

definition frame_boundary :: "landmark option list" where
  "frame_boundary = frame_centre[19 := Some near_finger]"

text \<open>A frame in which the left index finger landmark is \<open>undefined\<close>, and a frame
  too short to hold the index fingers at all.\<close>

definition frame_no_left :: "landmark option list" where
  "frame_no_left = frame_centre[19 := None]"

definition frame_short :: "landmark option list" where
  "frame_short = replicate 5 (Some centre)"

section \<open>Compositor control logic (components/InvisibleManExperience: FullScreenQuad)\<close>

text \<open>
  Images (video frames, masks, loaded textures) are opaque and named by a number. A canvas
  is its size and what was last drawn over its whole area (\<open>None\<close>: cleared). Assigning
  a canvas's width or height clears it. A texture object is its version counter:
  \<open>needsUpdate = true\<close> bumps it, and the \<open>CanvasTexture\<close> constructor sets
  \<open>needsUpdate\<close> once. The uniforms of the material hold references to texture
  objects; in the shader the same uniforms are samplers, so the record is polymorphic in
  what a texture is. The reveal progress and the frame time are JavaScript numbers, and
  the interpolation rounds after each of its operations.
\<close>

type_synonym vec2 = "real \<times> real"
type_synonym vec3 = "real \<times> real \<times> real"
type_synonym vec4 = "real \<times> real \<times> real \<times> real"

record results =
  res_image :: nat
  segmentationMask :: "nat option"
  poseLandmarks :: landmarks

record canvas =
  cv_width :: nat
  cv_height :: nat
  cv_content :: "nat option"

record video =
  videoWidth :: nat
  videoHeight :: nat
  videoFrame :: nat

record 't uniforms =
  uTime :: real
  uBackgroundTexture :: 't
  uVideoTexture :: 't
  uMaskTexture :: 't
  uRevealFactor :: real
  uResolution :: vec2

datatype tex_ref = BgTex nat | VideoTex | MaskTex

record quad =
  materialRef :: "tex_ref option uniforms option"
  bgTexture :: "nat option"
  videoTextureRef :: "nat option"
  maskTextureRef :: "nat option"
  maskCanvasRef :: canvas
  revealProgress :: real

text \<open>What one call of the \<open>useFrame\<close> callback receives from its surroundings.\<close>

record frame_in =
  fr_elapsedTime :: real
  fr_delta :: real
  fr_size :: vec2
  fr_videoElement :: "video option"
  fr_latestResults :: "results option"
  fr_isTouchingHead :: bool
  fr_ctx2d :: bool

definition lerp :: "real \<Rightarrow> real \<Rightarrow> real \<Rightarrow> real" where
  \<comment> \<open>\<open>THREE.MathUtils.lerp(x, y, t)\<close>, that is \<open>(1 - t) * x + t * y\<close>\<close>
  "lerp x y t = js_add (js_mul (js_sub 1 t) x) (js_mul t y)"

definition needsUpdate :: "nat option \<Rightarrow> nat option" where
  "needsUpdate t = map_option Suc t"

definition ingestMask :: "video \<Rightarrow> nat \<Rightarrow> bool \<Rightarrow> quad \<Rightarrow> quad" where
  \<comment> \<open>The body of \<open>if (results && results.segmentationMask)\<close>.\<close>
  "ingestMask v m ctx q =
     (let maskCanvas = maskCanvasRef q;
          maskCanvas1 =
            (if cv_width maskCanvas \<noteq> videoWidth v \<or> cv_height maskCanvas \<noteq> videoHeight v
             then \<lparr>cv_width = videoWidth v, cv_height = videoHeight v, cv_content = None\<rparr>
             else maskCanvas)
      in if ctx
         then q\<lparr>maskCanvasRef := maskCanvas1\<lparr>cv_content := Some m\<rparr>,
                maskTextureRef :=
                  (case maskTextureRef q of None \<Rightarrow> Some 1 | Some n \<Rightarrow> Some (Suc n))\<rparr>
         else q\<lparr>maskCanvasRef := maskCanvas1\<rparr>)"

definition updateMask :: "frame_in \<Rightarrow> video \<Rightarrow> quad \<Rightarrow> quad" where
  "updateMask f v q =
     (case fr_latestResults f of
        None \<Rightarrow> q
      | Some r \<Rightarrow>
          (case segmentationMask r of
             None \<Rightarrow> q
           | Some m \<Rightarrow> ingestMask v m (fr_ctx2d f) q))"

definition useFrame :: "frame_in \<Rightarrow> quad \<Rightarrow> quad" where
  "useFrame f q =
     (case (materialRef q, fr_videoElement f, bgTexture q) of
        (Some u, Some v, Some bg) \<Rightarrow>
          let q1 = q\<lparr>videoTextureRef := needsUpdate (videoTextureRef q)\<rparr>;
              q2 = updateMask f v q1;
              targetReveal = (if fr_isTouchingHead f then 1 else 0);
              reveal = lerp (revealProgress q2) targetReveal (js_mul (fr_delta f) 3)
          in q2\<lparr>revealProgress := reveal,
                materialRef := Some (u\<lparr>
                  uTime := fr_elapsedTime f,
                  uResolution := fr_size f,
                  uBackgroundTexture := Some (BgTex bg),
                  uVideoTexture := (if videoTextureRef q2 = None then None else Some VideoTex),
                  uMaskTexture :=
                    (if maskTextureRef q2 = None then uMaskTexture u else Some MaskTex),
                  uRevealFactor := reveal\<rparr>)\<rparr>
      | _ \<Rightarrow> q)"

text \<open>The material as \<open>LiquidMaterialImpl\<close>'s constructor makes it, and the component as
  it is when it mounts: no background texture loaded (so no mesh and no material yet), a
  fresh canvas of the default size 300 x 150, reveal progress 0.\<close>

definition initial_uniforms :: "tex_ref option uniforms" where
  "initial_uniforms = \<lparr>uTime = 0, uBackgroundTexture = None, uVideoTexture = None,
     uMaskTexture = None, uRevealFactor = 0, uResolution = (1, 1)\<rparr>"

definition mountQuad :: "video option \<Rightarrow> quad" where
  "mountQuad vid = \<lparr>materialRef = None, bgTexture = None,
     videoTextureRef = (if vid = None then None else Some 0),
     maskTextureRef = None,
     maskCanvasRef = \<lparr>cv_width = 300, cv_height = 150, cv_content = None\<rparr>,
     revealProgress = 0\<rparr>"

definition bgLoaded :: "nat \<Rightarrow> quad \<Rightarrow> quad" where
  \<comment> \<open>The texture loader's callback; the mesh and its material exist from the next render.\<close>
  "bgLoaded t q = q\<lparr>bgTexture := Some t,
     materialRef := (case materialRef q of None \<Rightarrow> Some initial_uniforms | Some u \<Rightarrow> Some u)\<rparr>"

text \<open>Ticks with the gesture held: the reveal progress after each of a list of frames.\<close>

fun run_frames :: "frame_in list \<Rightarrow> quad \<Rightarrow> quad" where
  "run_frames [] q = q"
| "run_frames (f # fs) q = run_frames fs (useFrame f q)"

section \<open>Capture state machine (App)\<close>

text \<open>
  The component's state is a record. \<open>appState\<close> is the React state as last requested
  by \<open>setAppState\<close>; \<open>stateRef\<close> is the copy an effect stores after each render in
  which \<open>appState\<close> changed, and it is the copy the result callback reads.
  \<open>backgroundDataUrl\<close> is the data URL of the snapshot canvas, modelled as that canvas.
  \<open>initPending\<close> counts the \<open>initialize()\<close> promises that have not settled yet (each
  settles once), and \<open>scene\<close> is the mounted \<open>FullScreenQuad\<close>, which the JSX renders
  only while \<open>appState === ACTIVE && backgroundDataUrl\<close>; unmounting discards its refs.
  The video element is rendered unconditionally, so \<open>videoRef.current\<close> is taken to be
  present when the initialisation effect runs; the capture effect receives it as an
  argument. The component is mounted once, so its initialisation effect runs once per
  value of \<open>retryCount\<close>; the retry button exists only while the rendered state is
  ERROR.
\<close>

datatype AppState =
  INITIALIZING | WAITING_FOR_CLEAR_VIEW | CAPTURING_BACKGROUND | ACTIVE | ERROR

datatype status_message = MsgInitCamera | MsgLeaveFrame | MsgCameraFailed | MsgEmpty

record app =
  appState :: AppState
  statusMessage :: status_message
  backgroundDataUrl :: "canvas option"
  isTouchingHead :: bool
  retryCount :: nat
  latestResultsRef :: "results option"
  noPersonTimerRef :: nat
  stateRef :: AppState
  initPending :: nat
  scene :: "quad option"

definition onResults :: "results \<Rightarrow> app \<Rightarrow> app" where
  "onResults r s = s\<lparr>latestResultsRef := Some r\<rparr>"

definition wrappedOnResults :: "results \<Rightarrow> app \<Rightarrow> js_error + app" where
  "wrappedOnResults r s =
     (let s1 = onResults r s;
          currentState = stateRef s1;
          lms = poseLandmarks r;
          isPersonPresent = hasPeople lms
      in if currentState = WAITING_FOR_CLEAR_VIEW then
           (if \<not> isPersonPresent then
              let s2 = s1\<lparr>noPersonTimerRef := noPersonTimerRef s1 + 1\<rparr>
              in if noPersonTimerRef s2 > 30
                 then Inr (s2\<lparr>appState := CAPTURING_BACKGROUND\<rparr>)
                 else Inr s2
            else Inr (s1\<lparr>noPersonTimerRef := 0\<rparr>))
         else if currentState = ACTIVE then
           (if lms \<noteq> None
            then js_bind (checkFingerOnHead lms) (\<lambda>touching.
                   Inr (s1\<lparr>isTouchingHead := touching\<rparr>))
            else Inr (s1\<lparr>isTouchingHead := False\<rparr>))
         else Inr s1)"

definition tick :: "results \<Rightarrow> app \<Rightarrow> app" where
  \<comment> \<open>One delivered result; an exception would leave what was stored before it.\<close>
  "tick r s = (case wrappedOnResults r s of Inr s' \<Rightarrow> s' | Inl e \<Rightarrow> onResults r s)"

fun run_ticks :: "results list \<Rightarrow> app \<Rightarrow> app" where
  "run_ticks [] s = s"
| "run_ticks (r # rs) s = run_ticks rs (tick r s)"

definition captureBackground :: "video option \<Rightarrow> bool \<Rightarrow> app \<Rightarrow> app" where
  \<comment> \<open>The capture effect; \<open>ctx\<close> says whether \<open>canvas.getContext('2d')\<close> gave a context.\<close>
  "captureBackground vid ctx s =
     (case vid of
        None \<Rightarrow> s
      | Some v \<Rightarrow>
          if appState s = CAPTURING_BACKGROUND then
            (let cnv = \<lparr>cv_width = videoWidth v, cv_height = videoHeight v, cv_content = None\<rparr>
             in if ctx
                then s\<lparr>backgroundDataUrl := Some (cnv\<lparr>cv_content := Some (videoFrame v)\<rparr>),
                       appState := ACTIVE,
                       statusMessage := MsgEmpty\<rparr>
                else s)
          else s)"

definition render :: "video option \<Rightarrow> bool \<Rightarrow> app \<Rightarrow> app" where
  \<comment> \<open>A render and its commit: the scene is mounted or unmounted as the JSX says; the
      effects that depend on \<open>appState\<close> run when it changed since the last commit.\<close>
  "render vid ctx s =
     (let s1 = s\<lparr>scene :=
                 (if appState s = ACTIVE \<and> backgroundDataUrl s \<noteq> None
                  then (case scene s of None \<Rightarrow> Some (mountQuad vid) | Some q \<Rightarrow> Some q)
                  else None)\<rparr>
      in if appState s = stateRef s then s1
         else captureBackground vid ctx (s1\<lparr>stateRef := appState s\<rparr>))"

definition initialized :: "app \<Rightarrow> app" where
  \<comment> \<open>\<open>service.initialize(...).then\<close>\<close>
  "initialized s = s\<lparr>appState := WAITING_FOR_CLEAR_VIEW, statusMessage := MsgLeaveFrame,
     initPending := initPending s - 1\<rparr>"

definition initFailed :: "app \<Rightarrow> app" where
  \<comment> \<open>\<open>service.initialize(...).catch\<close>\<close>
  "initFailed s = s\<lparr>appState := ERROR, statusMessage := MsgCameraFailed,
     initPending := initPending s - 1\<rparr>"

definition retry :: "app \<Rightarrow> app" where
  \<comment> \<open>The retry button: \<open>setRetryCount(c => c + 1)\<close>, then the initialisation effect.\<close>
  "retry s = s\<lparr>retryCount := retryCount s + 1, appState := INITIALIZING,
     statusMessage := MsgInitCamera, initPending := initPending s + 1\<rparr>"

definition initial_app :: app where
  \<comment> \<open>After the first render and its initialisation effect.\<close>
  "initial_app = \<lparr>appState = INITIALIZING, statusMessage = MsgInitCamera,
     backgroundDataUrl = None, isTouchingHead = False, retryCount = 0,
     latestResultsRef = None, noPersonTimerRef = 0, stateRef = INITIALIZING,
     initPending = 1, scene = None\<rparr>"

datatype event =
  Results results | Render "video option" bool | InitResolved | InitRejected | Retry
  | Frame frame_in | BgLoaded nat

fun enabled :: "event \<Rightarrow> app \<Rightarrow> bool" where
  "enabled InitResolved s = (initPending s > 0)"
| "enabled InitRejected s = (initPending s > 0)"
| "enabled Retry s = (appState s = ERROR \<and> stateRef s = ERROR)"
| "enabled (Results r) s = True"
| "enabled (Render vid ctx) s = True"
| "enabled (Frame f) s = True"
| "enabled (BgLoaded t) s = True"

fun step :: "event \<Rightarrow> app \<Rightarrow> app" where
  "step (Results r) s = tick r s"
| "step (Render vid ctx) s = render vid ctx s"
| "step InitResolved s = initialized s"
| "step InitRejected s = initFailed s"
| "step Retry s = retry s"
| "step (Frame f) s = s\<lparr>scene := map_option (useFrame f) (scene s)\<rparr>"
| "step (BgLoaded t) s = s\<lparr>scene := map_option (bgLoaded t) (scene s)\<rparr>"

inductive reachable :: "app \<Rightarrow> bool" where
  reachable_init: "reachable initial_app"
| reachable_step: "reachable s \<Longrightarrow> enabled e s \<Longrightarrow> reachable (step e s)"

text \<open>A result with nobody in view, one with a 33-point frame, and the state in which the
  wait for a clear view begins.\<close>

definition nobody :: results where
  "nobody = \<lparr>res_image = 0, segmentationMask = None, poseLandmarks = None\<rparr>"

definition somebody :: results where
  "somebody = \<lparr>res_image = 0, segmentationMask = Some 0, poseLandmarks = Some frame_centre\<rparr>"

definition waiting_app :: app where
  "waiting_app = initial_app\<lparr>appState := WAITING_FOR_CLEAR_VIEW, statusMessage := MsgLeaveFrame,
     stateRef := WAITING_FOR_CLEAR_VIEW, initPending := 0\<rparr>"

definition capturing_app :: app where
  "capturing_app = run_ticks (replicate 31 nobody) waiting_app"

section \<open>Camera service (services/mediapipe: MediaPipeService)\<close>

text \<open>
  \<open>initialize\<close> is asynchronous: it runs to its first \<open>await\<close> (the camera request),
  and each later part runs when the awaited thing arrives. \<open>phase\<close> records where the
  call is suspended or how it ended; every other field of the record is a field of the
  class. The Pose object and the media tracks belong to the browser: of them the model
  keeps whether the Pose object was closed and whether each track is live. \<open>framesSent\<close>
  counts the frames handed to \<open>pose.send\<close>, and \<open>rafScheduled\<close> says whether a
  \<open>requestAnimationFrame\<close> callback is outstanding. One \<open>initialize\<close> call is made on a
  service, as the component does, and one pass of \<open>processVideo\<close> (guard, send, request of
  the next animation frame) is one step.
\<close>

datatype track_state = Live | Ended

record media_stream =
  tracks :: "track_state list"

record video_element =
  srcObject :: "media_stream option"
  playing :: bool

record pose_object =
  pose_closed :: bool

datatype init_phase = NotCalled | AwaitingStream | AwaitingMetadata | Returned | Threw

record service =
  pose :: "pose_object option"
  videoElement :: "video_element option"
  requestAnimationId :: "nat option"
  isStopped :: bool
  phase :: init_phase
  framesSent :: nat
  rafScheduled :: bool

definition new_service :: service where
  "new_service = \<lparr>pose = None, videoElement = None, requestAnimationId = None,
     isStopped = False, phase = NotCalled, framesSent = 0, rafScheduled = False\<rparr>"

definition stop_tracks :: "media_stream \<Rightarrow> media_stream" where
  \<comment> \<open>\<open>stream.getTracks().forEach(track => track.stop())\<close>\<close>
  "stop_tracks st = st\<lparr>tracks := map (\<lambda>t. Ended) (tracks st)\<rparr>"

definition initialize :: "video_element \<Rightarrow> service \<Rightarrow> service" where
  \<comment> \<open>Up to \<open>await navigator.mediaDevices.getUserMedia(constraints)\<close>.\<close>
  "initialize v s = s\<lparr>isStopped := False, videoElement := Some v,
     pose := Some \<lparr>pose_closed = False\<rparr>, phase := AwaitingStream\<rparr>"

definition processVideo :: "service \<Rightarrow> service" where
  "processVideo s =
     (if isStopped s \<or> videoElement s = None \<or> pose s = None then s\<lparr>rafScheduled := False\<rparr>
      else
        let sent = (case videoElement s of
                      Some v \<Rightarrow> if playing v then framesSent s + 1 else framesSent s
                    | None \<Rightarrow> framesSent s)
        in s\<lparr>framesSent := sent,
             requestAnimationId :=
               Some (case requestAnimationId s of None \<Rightarrow> 1 | Some n \<Rightarrow> Suc n),
             rafScheduled := True\<rparr>)"

definition streamArrived :: "media_stream \<Rightarrow> service \<Rightarrow> service \<times> media_stream" where
  \<comment> \<open>The part of \<open>initialize\<close> after the camera request resolves, up to the next
      \<open>await\<close>. The second component is the stream object as that part leaves it.\<close>
  "streamArrived st s =
     (if isStopped s then (s\<lparr>phase := Returned\<rparr>, stop_tracks st)
      else
        (s\<lparr>videoElement := map_option (\<lambda>v. v\<lparr>srcObject := Some st\<rparr>) (videoElement s),
           phase := AwaitingMetadata\<rparr>, st))"

definition streamFailed :: "service \<Rightarrow> service" where
  \<comment> \<open>The camera request rejects: the \<open>catch\<close> logs and rethrows.\<close>
  "streamFailed s = s\<lparr>phase := Threw\<rparr>"

definition metadataLoaded :: "service \<Rightarrow> service" where
  \<comment> \<open>\<open>onloadedmetadata\<close> fires: play, resolve, and the rest of \<open>initialize\<close>.\<close>
  "metadataLoaded s =
     (let s1 = s\<lparr>videoElement := map_option (\<lambda>v. v\<lparr>playing := True\<rparr>) (videoElement s),
                 phase := Returned\<rparr>
      in if \<not> isStopped s1 then processVideo s1 else s1)"

definition stop :: "service \<Rightarrow> service" where
  "stop s =
     (let s1 = s\<lparr>isStopped := True\<rparr>;
          s2 = (if requestAnimationId s1 \<noteq> None then s1\<lparr>rafScheduled := False\<rparr> else s1);
          s3 = (case videoElement s2 of
                  Some v \<Rightarrow>
                    if srcObject v \<noteq> None
                    then s2\<lparr>videoElement := Some (v\<lparr>srcObject := None\<rparr>)\<rparr>
                    else s2
                | None \<Rightarrow> s2)
      in case pose s3 of
           Some p \<Rightarrow> s3\<lparr>pose := Some (p\<lparr>pose_closed := True\<rparr>)\<rparr>
         | None \<Rightarrow> s3)"

datatype service_event =
  Stop | StreamArrives media_stream | StreamFails | MetadataLoaded | AnimationFrame

fun service_step :: "service_event \<Rightarrow> service \<Rightarrow> service" where
  "service_step Stop s = stop s"
| "service_step (StreamArrives st) s =
     (if phase s = AwaitingStream then fst (streamArrived st s) else s)"
| "service_step StreamFails s = (if phase s = AwaitingStream then streamFailed s else s)"
| "service_step MetadataLoaded s =
     (if phase s = AwaitingMetadata then metadataLoaded s else s)"
| "service_step AnimationFrame s = (if rafScheduled s then processVideo s else s)"

fun service_run :: "service_event list \<Rightarrow> service \<Rightarrow> service" where
  "service_run [] s = s"
| "service_run (e # es) s = service_run es (service_step e s)"

text \<open>A camera stream with a video track and an audio track, and an idle video element.\<close>

definition camera_stream :: media_stream where
  "camera_stream = \<lparr>tracks = [Live, Live]\<rparr>"

definition idle_video :: video_element where
  "idle_video = \<lparr>srcObject = None, playing = False\<rparr>"

section \<open>Compositing shader (components/LiquidShader: fragmentShader)\<close>

text \<open>
  The fragment shader computes one pixel from the uniforms and the interpolated texture
  coordinate \<open>vUv\<close>. GLSL floats are modelled as real numbers and a sampler as the
  function from texture coordinates to colours that \<open>texture2D\<close> evaluates (filtering
  and wrapping are the sampler's). The built-in functions are written from their GLSL
  definitions; each local variable of \<open>main\<close> is a definition of the same name.
\<close>

type_synonym sampler2D = "vec2 \<Rightarrow> vec4"

fun map3 :: "(real \<Rightarrow> real) \<Rightarrow> vec3 \<Rightarrow> vec3" where
  "map3 f (a, b, c) = (f a, f b, f c)"

fun zip3 :: "(real \<Rightarrow> real \<Rightarrow> real) \<Rightarrow> vec3 \<Rightarrow> vec3 \<Rightarrow> vec3" where
  "zip3 f (a, b, c) (a', b', c') = (f a a', f b b', f c c')"

fun dot2 :: "vec2 \<Rightarrow> vec2 \<Rightarrow> real" where
  "dot2 (a, b) (a', b') = a * a' + b * b'"

fun dot3 :: "vec3 \<Rightarrow> vec3 \<Rightarrow> real" where
  "dot3 (a, b, c) (a', b', c') = a * a' + b * b' + c * c'"

fun length2 :: "vec2 \<Rightarrow> real" where
  "length2 (a, b) = sqrt (a * a + b * b)"

fun add2 :: "vec2 \<Rightarrow> vec2 \<Rightarrow> vec2" where
  "add2 (a, b) (a', b') = (a + a', b + b')"

fun sub2 :: "vec2 \<Rightarrow> vec2 \<Rightarrow> vec2" where
  "sub2 (a, b) (a', b') = (a - a', b - b')"

fun add4 :: "vec4 \<Rightarrow> vec4 \<Rightarrow> vec4" where
  "add4 (a, b, c, d) (a', b', c', d') = (a + a', b + b', c + c', d + d')"

fun scale4 :: "vec4 \<Rightarrow> real \<Rightarrow> vec4" where
  "scale4 (a, b, c, d) k = (a * k, b * k, c * k, d * k)"

definition fract :: "real \<Rightarrow> real" where
  "fract x = x - of_int \<lfloor>x\<rfloor>"

definition clamp :: "real \<Rightarrow> real \<Rightarrow> real \<Rightarrow> real" where
  "clamp x lo hi = min (max x lo) hi"

definition smoothstep :: "real \<Rightarrow> real \<Rightarrow> real \<Rightarrow> real" where
  "smoothstep edge0 edge1 x =
     (let t = clamp ((x - edge0) / (edge1 - edge0)) 0 1 in t * t * (3 - 2 * t))"

definition mix1 :: "real \<Rightarrow> real \<Rightarrow> real \<Rightarrow> real" where
  "mix1 x y a = x * (1 - a) + y * a"

fun mix :: "vec4 \<Rightarrow> vec4 \<Rightarrow> real \<Rightarrow> vec4" where
  "mix (x1, x2, x3, x4) (y1, y2, y3, y4) a =
     (mix1 x1 y1 a, mix1 x2 y2 a, mix1 x3 y3 a, mix1 x4 y4 a)"

fun red :: "vec4 \<Rightarrow> real" where
  \<comment> \<open>the swizzle \<open>.r\<close>\<close>
  "red (r, g, b, a) = r"

subsection \<open>Simplex noise\<close>

definition mod289 :: "real \<Rightarrow> real" where
  "mod289 x = x - of_int \<lfloor>x * (1 / 289)\<rfloor> * 289"

definition permute :: "vec3 \<Rightarrow> vec3" where
  "permute v = map3 (\<lambda>x. mod289 (((x * 34) + 1) * x)) v"

definition snoise :: "vec2 \<Rightarrow> real" where
  "snoise v =
     (let Cx = 0.211324865405187; Cy = 0.366025403784439;
          Cz = - 0.577350269189626; Cw = 0.024390243902439;
          s = dot2 v (Cy, Cy);
          i = (of_int \<lfloor>fst v + s\<rfloor>, of_int \<lfloor>snd v + s\<rfloor>);
          t = dot2 i (Cx, Cx);
          x0 = (fst v - fst i + t, snd v - snd i + t);
          i1 = (if fst x0 > snd x0 then (1, 0) else (0, 1));
          x12xy = (fst x0 + Cx - fst i1, snd x0 + Cx - snd i1);
          x12zw = (fst x0 + Cz, snd x0 + Cz);
          im = (mod289 (fst i), mod289 (snd i));
          p = permute (zip3 (+)
                (map3 (\<lambda>c. c + fst im) (permute (map3 (\<lambda>c. snd im + c) (0, snd i1, 1))))
                (0, fst i1, 1));
          m0 = map3 (\<lambda>c. max (0.5 - c) 0) (dot2 x0 x0, dot2 x12xy x12xy, dot2 x12zw x12zw);
          m1 = zip3 (*) m0 m0;
          m2 = zip3 (*) m1 m1;
          x = map3 (\<lambda>c. 2 * fract (c * Cw) - 1) p;
          h = map3 (\<lambda>c. \<bar>c\<bar> - 0.5) x;
          ox = map3 (\<lambda>c. of_int \<lfloor>c + 0.5\<rfloor>) x;
          a0 = zip3 (-) x ox;
          m3 = zip3 (*) m2
                 (map3 (\<lambda>c. 1.79284291400159 - 0.85373472095314 * c)
                    (zip3 (+) (zip3 (*) a0 a0) (zip3 (*) h h)));
          g = (case (a0, h) of ((a0x, a0y, a0z), (hx, hy, hz)) \<Rightarrow>
                 (a0x * fst x0 + hx * snd x0,
                  a0y * fst x12xy + hy * fst x12zw,
                  a0z * snd x12xy + hz * snd x12zw))
      in 130 * dot3 m3 g)"

subsection \<open>main\<close>

definition maskVal :: "sampler2D uniforms \<Rightarrow> vec2 \<Rightarrow> real" where
  "maskVal u vUv = red (uMaskTexture u vUv)"

definition radius :: real where
  "radius = 5"

definition offset :: "sampler2D uniforms \<Rightarrow> vec2" where
  \<comment> \<open>\<open>px * radius\<close> with \<open>px = 1.0 / uResolution\<close>\<close>
  "offset u = (1 / fst (uResolution u) * radius, 1 / snd (uResolution u) * radius)"

definition edgeMag :: "sampler2D uniforms \<Rightarrow> vec2 \<Rightarrow> real" where
  "edgeMag u vUv =
     (let ox = fst (offset u); oy = snd (offset u);
          n = red (uMaskTexture u (add2 vUv (0, oy)));
          s = red (uMaskTexture u (sub2 vUv (0, oy)));
          e = red (uMaskTexture u (add2 vUv (ox, 0)));
          w = red (uMaskTexture u (sub2 vUv (ox, 0)));
          nw = red (uMaskTexture u (add2 vUv (- ox, oy)));
          ne = red (uMaskTexture u (add2 vUv (ox, oy)));
          sw = red (uMaskTexture u (add2 vUv (- ox, - oy)));
          se = red (uMaskTexture u (add2 vUv (ox, - oy)));
          gx = (ne + 2 * e + se) - (nw + 2 * w + sw);
          gy = (nw + 2 * n + ne) - (sw + 2 * s + se)
      in length2 (gx, gy))"

definition isEdge :: "sampler2D uniforms \<Rightarrow> vec2 \<Rightarrow> real" where
  "isEdge u vUv = smoothstep 0 2.5 (edgeMag u vUv)"

definition combinedNoise :: "sampler2D uniforms \<Rightarrow> vec2 \<Rightarrow> real" where
  "combinedNoise u vUv =
     (let noiseScale = 4; timeScale = 0.5;
          noise = snoise (fst vUv * noiseScale + uTime u * timeScale,
                          snd vUv * noiseScale + uTime u * timeScale);
          noise2 = snoise (fst vUv * (noiseScale * 0.7) - uTime u * (timeScale * 0.8) + 10,
                           snd vUv * (noiseScale * 0.7) - uTime u * (timeScale * 0.8) + 10)
      in (noise + noise2) * 0.5)"

definition liquidColor :: "sampler2D uniforms \<Rightarrow> vec2 \<Rightarrow> vec4" where
  "liquidColor u vUv =
     (let cn = combinedNoise u vUv;
          distortion = (cn * 0.02, cn * 0.02);
          distortedBg = uBackgroundTexture u (add2 vUv distortion);
          highlight = smoothstep 0.3 0.9 cn * 0.6;
          liquidColorTint = (0.9, 0.95, 1, 0)
      in add4 distortedBg (scale4 liquidColorTint highlight))"

definition cleanBg :: "sampler2D uniforms \<Rightarrow> vec2 \<Rightarrow> vec4" where
  "cleanBg u vUv = uBackgroundTexture u vUv"

definition personColor :: "sampler2D uniforms \<Rightarrow> vec2 \<Rightarrow> vec4" where
  "personColor u vUv = uVideoTexture u vUv"

definition edgeBlend :: "sampler2D uniforms \<Rightarrow> vec2 \<Rightarrow> vec4" where
  \<comment> \<open>\<open>outputColor\<close> after \<open>mix(outputColor, liquidColor, isEdge)\<close>\<close>
  "edgeBlend u vUv = mix (cleanBg u vUv) (liquidColor u vUv) (isEdge u vUv)"

definition fragmentShader :: "sampler2D uniforms \<Rightarrow> vec2 \<Rightarrow> vec4" where
  \<comment> \<open>the value \<open>main\<close> writes to \<open>gl_FragColor\<close>\<close>
  "fragmentShader u vUv =
     mix (edgeBlend u vUv) (personColor u vUv) (uRevealFactor u * maskVal u vUv)"

subsection \<open>The composition as the specification words it\<close>

text \<open>
  Written from the specification, not from the shader: the eight neighbours of a pixel as
  displacements, the Sobel weights (cardinal neighbours 2, diagonal neighbours 1), the
  gradient as the weighted sums of the neighbours' mask values signed by the direction
  of the displacement, a sampling radius of 5 times a given unit, the edge intensity as
  the smooth threshold of the gradient's magnitude over 0.0 to 2.5, and the two blends in
  their order. The unit is a parameter, given in texture coordinates: for a radius of
  5 texels of the mask it is one texel of the mask surface, which has the video's native
  size.
\<close>

definition neighbours8 :: "(int \<times> int) list" where
  "neighbours8 = [(0, 1), (0, -1), (1, 0), (-1, 0), (-1, 1), (1, 1), (-1, -1), (1, -1)]"

definition sobel_weight :: "int \<times> int \<Rightarrow> real" where
  "sobel_weight d = (if fst d = 0 \<or> snd d = 0 then 2 else 1)"

definition spec_sample :: "sampler2D \<Rightarrow> vec2 \<Rightarrow> vec2 \<Rightarrow> int \<times> int \<Rightarrow> real" where
  "spec_sample msk uv unit d =
     red (msk (fst uv + of_int (fst d) * 5 * fst unit, snd uv + of_int (snd d) * 5 * snd unit))"

definition spec_gradient :: "sampler2D \<Rightarrow> vec2 \<Rightarrow> vec2 \<Rightarrow> vec2" where
  "spec_gradient msk uv unit =
     (sum_list (map (\<lambda>d. of_int (fst d) * sobel_weight d * spec_sample msk uv unit d) neighbours8),
      sum_list (map (\<lambda>d. of_int (snd d) * sobel_weight d * spec_sample msk uv unit d) neighbours8))"

definition spec_edge_intensity :: "vec2 \<Rightarrow> sampler2D uniforms \<Rightarrow> vec2 \<Rightarrow> real" where
  "spec_edge_intensity unit u uv =
     smoothstep 0 2.5 (length2 (spec_gradient (uMaskTexture u) uv unit))"

definition spec_composite :: "vec2 \<Rightarrow> sampler2D uniforms \<Rightarrow> vec2 \<Rightarrow> vec4" where
  "spec_composite unit u uv =
     (let background = uBackgroundTexture u uv;
          edged = mix background (liquidColor u uv) (spec_edge_intensity unit u uv);
          weight = uRevealFactor u * red (uMaskTexture u uv)
      in mix edged (uVideoTexture u uv) weight)"

definition mask_texel :: "canvas \<Rightarrow> vec2" where
  \<comment> \<open>one texel of the mask surface, in texture coordinates\<close>
  "mask_texel c = (1 / real (cv_width c), 1 / real (cv_height c))"

definition render_pixel :: "sampler2D uniforms \<Rightarrow> vec2" where
  \<comment> \<open>one pixel of the resolution uniform, in texture coordinates\<close>
  "render_pixel u = (1 / fst (uResolution u), 1 / snd (uResolution u))"

text \<open>A mask surface 1280 texels wide whose columns from 646 on are foreground, sampled by
  the nearest texel, and the uniforms of a canvas of 640 by 360 pixels showing it.\<close>

definition step_mask :: sampler2D where
  "step_mask = (\<lambda>p. if 646 \<le> \<lfloor>fst p * 1280\<rfloor> then (1, 1, 1, 1) else (0, 0, 0, 1))"

definition small_canvas_uniforms :: "sampler2D uniforms" where
  "small_canvas_uniforms =
     \<lparr>uTime = 0,
      uBackgroundTexture = (\<lambda>p. (1/2, 1/2, 1/2, 1)),
      uVideoTexture = (\<lambda>p. (1, 1, 1, 1)),
      uMaskTexture = step_mask,
      uRevealFactor = 0,
      uResolution = (640, 360)\<rparr>"

text \<open>Uniforms with an empty mask, a grey background plate and a white video frame.\<close>

definition empty_mask_uniforms :: "real \<Rightarrow> sampler2D uniforms" where
  "empty_mask_uniforms reveal =
     \<lparr>uTime = 0,
      uBackgroundTexture = (\<lambda>p. (1/2, 1/2, 1/2, 1)),
      uVideoTexture = (\<lambda>p. (1, 1, 1, 1)),
      uMaskTexture = (\<lambda>p. (0, 0, 0, 1)),
      uRevealFactor = reveal,
      uResolution = (1280, 720)\<rparr>"

section \<open>Compositor: inputs for the reveal easing and the mask ingestion\<close>

definition ready :: "quad \<Rightarrow> bool" where
  \<comment> \<open>the guard at the head of the \<open>useFrame\<close> callback, as far as it is the quad's\<close>
  "ready q = (materialRef q \<noteq> None \<and> bgTexture q \<noteq> None)"

definition held :: "frame_in \<Rightarrow> bool" where
  \<comment> \<open>a frame with the gesture active, a video element, and a frame time of at most a
      third of a second\<close>
  "held f = (fr_isTouchingHead f \<and> fr_videoElement f \<noteq> None
              \<and> 0 < fr_delta f \<and> fr_delta f \<le> 1/3)"

definition maskUniform :: "quad \<Rightarrow> tex_ref option" where
  "maskUniform q = (case materialRef q of None \<Rightarrow> None | Some u \<Rightarrow> uMaskTexture u)"

definition camera :: video where
  "camera = \<lparr>videoWidth = 1280, videoHeight = 720, videoFrame = 0\<rparr>"

definition ready_quad :: quad where
  "ready_quad = bgLoaded 7 (mountQuad (Some camera))"

definition held_frame :: "real \<Rightarrow> frame_in" where
  "held_frame dt = \<lparr>fr_elapsedTime = 0, fr_delta = dt, fr_size = (1280, 720),
     fr_videoElement = Some camera, fr_latestResults = None,
     fr_isTouchingHead = True, fr_ctx2d = True\<rparr>"

definition mask_frame :: "results \<Rightarrow> frame_in" where
  "mask_frame r = (held_frame (1/60))\<lparr>fr_latestResults := Some r\<rparr>"

definition small_canvas_frame :: frame_in where
  \<comment> \<open>a frame with a mask while the canvas is 640 by 360 and the video 1280 by 720\<close>
  "small_canvas_frame = (mask_frame somebody)\<lparr>fr_size := (640, 360)\<rparr>"

definition absent :: "results \<Rightarrow> bool" where
  \<comment> \<open>a result on which no person is detected\<close>
  "absent r = (\<not> hasPeople (poseLandmarks r))"

text \<open>The invariant of the reachable states of the component.\<close>

definition app_inv :: "app \<Rightarrow> bool" where
  "app_inv s =
     (initPending s \<le> 1
      \<and> (initPending s = 1 \<longrightarrow> appState s = INITIALIZING)
      \<and> (appState s = INITIALIZING \<or> appState s = ERROR \<longrightarrow>
            backgroundDataUrl s = None \<and> noPersonTimerRef s = 0
            \<and> (stateRef s = INITIALIZING \<or> stateRef s = ERROR))
      \<and> (backgroundDataUrl s \<noteq> None \<longleftrightarrow> appState s = ACTIVE)
      \<and> (stateRef s = WAITING_FOR_CLEAR_VIEW \<longrightarrow>
            appState s = WAITING_FOR_CLEAR_VIEW \<or> appState s = CAPTURING_BACKGROUND)
      \<and> (scene s \<noteq> None \<longrightarrow> appState s = ACTIVE))"

text \<open>The state after a failed initialisation has been rendered, a frame of zero size,
  and the state after a successful initialisation, 31 clear results and the capture.\<close>

definition error_app :: app where
  "error_app = step (Render (Some camera) True) (step InitRejected initial_app)"

definition zero_video :: video where
  "zero_video = \<lparr>videoWidth = 0, videoHeight = 0, videoFrame = 0\<rparr>"

definition active_app :: app where
  "active_app =
     step (Render (Some camera) True)
       (run_ticks (replicate 31 nobody)
          (step (Render (Some camera) True) (step InitResolved initial_app)))"

definition quiet :: "service \<Rightarrow> bool" where
  \<comment> \<open>the frame loop has not run: no frame sent, no animation frame requested\<close>
  "quiet s = (framesSent s = 0 \<and> requestAnimationId s = None \<and> \<not> rafScheduled s)"

definition masked_quad :: quad where
  \<comment> \<open>the compositor after one frame that ingested a mask\<close>
  "masked_quad = useFrame (mask_frame somebody) ready_quad"

section \<open>Theorems\<close>

subsection \<open>Rounding to a double\<close>

lemma rne_of_int: "rne (of_int k) = k"
  by (simp add: rne_def)

lemma rne_cases:
  "rne r = \<lfloor>r\<rfloor> \<and> r - of_int \<lfloor>r\<rfloor> \<le> 1/2 \<or> rne r = \<lfloor>r\<rfloor> + 1 \<and> 1/2 \<le> r - of_int \<lfloor>r\<rfloor>"
  by (auto simp: rne_def Let_def)

lemma rne_err: "\<bar>of_int (rne r) - r\<bar> \<le> 1/2"
proof -
  have "of_int \<lfloor>r\<rfloor> \<le> r" "r < of_int \<lfloor>r\<rfloor> + 1" by linarith+
  with rne_cases[of r] show ?thesis by auto
qed

lemma rne_nearest:
  assumes "\<bar>r - of_int k\<bar> < 1/2"
  shows "rne r = k"
proof -
  have e: "\<bar>of_int (rne r) - r\<bar> \<le> 1/2" by (rule rne_err)
  have "\<bar>(of_int (rne r) :: real) - of_int k\<bar> < 1" using assms e by linarith
  then show ?thesis by linarith
qed

lemma rne_mono:
  assumes "r \<le> s"
  shows "rne r \<le> rne s"
proof (cases "\<lfloor>r\<rfloor> = \<lfloor>s\<rfloor>")
  case True
  with assms show ?thesis by (auto simp: rne_def Let_def)
next
  case False
  with assms have "\<lfloor>r\<rfloor> < \<lfloor>s\<rfloor>" by (simp add: floor_mono order.strict_iff_order)
  moreover have "rne r \<le> \<lfloor>r\<rfloor> + 1" using rne_cases[of r] by auto
  moreover have "\<lfloor>s\<rfloor> \<le> rne s" using rne_cases[of s] by auto
  ultimately show ?thesis by linarith
qed

lemma expo_iff: "x \<noteq> 0 \<Longrightarrow> expo x = e \<longleftrightarrow> 2 powr of_int e \<le> \<bar>x\<bar> \<and> \<bar>x\<bar> < 2 powr of_int (e + 1)"
  unfolding expo_def using floor_log_eq_powr_iff[of "\<bar>x\<bar>" 2 e] by simp

lemma expo_bounds:
  assumes "x \<noteq> 0"
  shows "2 powr of_int (expo x) \<le> \<bar>x\<bar>" and "\<bar>x\<bar> < 2 powr of_int (expo x + 1)"
  using expo_iff[OF assms, of "expo x"] by simp_all

lemma expo_eqI:
  assumes "2 powr of_int e \<le> \<bar>x\<bar>" and "\<bar>x\<bar> < 2 powr of_int (e + 1)"
  shows "expo x = e"
proof -
  have "x \<noteq> 0" using assms(1) powr_gt_zero[of 2 "of_int e"] by auto
  then show ?thesis using assms by (simp add: expo_iff)
qed

lemma pw_add: "2 powr of_int (a + b) = 2 powr of_int a * (2 powr of_int b :: real)"
  by (simp add: powr_add)

lemma pw_nat: "0 \<le> n \<Longrightarrow> (2::real) powr of_int n = of_int (2 ^ nat n)"
  using powr_realpow[of 2 "nat n"] by simp

lemma pw_mono: "a \<le> b \<Longrightarrow> (2::real) powr of_int a \<le> 2 powr of_int b"
  by simp

lemma ulp_exp_ge: "- 1074 \<le> ulp_exp x"
  by (simp add: ulp_exp_def)

lemma round64_zero: "round64 0 = 0"
  by (simp add: round64_def)

lemma round64_eval:
  assumes "2 powr of_int e \<le> \<bar>x\<bar>" and "\<bar>x\<bar> < 2 powr of_int (e + 1)" and "- 1022 \<le> e"
  shows "round64 x = of_int (rne (x / 2 powr of_int (e - 52))) * 2 powr of_int (e - 52)"
proof -
  have e: "expo x = e" using assms(1,2) by (rule expo_eqI)
  have "x \<noteq> 0" using assms(1) powr_gt_zero[of 2 "of_int e"] by auto
  moreover have "ulp_exp x = e - 52" using assms(3) by (simp add: ulp_exp_def e)
  ultimately show ?thesis by (simp add: round64_def)
qed

lemma round64_exact:
  assumes "\<bar>k\<bar> < 2 ^ 53" and "- 1074 \<le> q"
  shows "round64 (of_int k * 2 powr of_int q) = of_int k * 2 powr of_int q"
proof (cases "k = 0")
  case True
  then show ?thesis by (simp add: round64_def)
next
  case False
  define x :: real where "x = of_int k * 2 powr of_int q"
  define u where "u = ulp_exp x"
  have x0: "x \<noteq> 0" using False by (simp add: x_def)
  have ax: "\<bar>x\<bar> = of_int \<bar>k\<bar> * 2 powr of_int q" by (simp add: x_def abs_mult)
  have "(of_int \<bar>k\<bar> :: real) < of_int (2 ^ 53)" using assms(1) by (simp only: of_int_less_iff)
  then have "of_int \<bar>k\<bar> < (2::real) ^ 53" by simp
  then have "\<bar>x\<bar> < 2 ^ 53 * 2 powr of_int q" unfolding ax by simp
  also have "\<dots> = 2 powr of_int (53 + q)" by (simp add: powr_add)
  finally have "2 powr of_int (expo x) < (2::real) powr of_int (53 + q)"
    using expo_bounds(1)[OF x0] by linarith
  then have "expo x < 53 + q" by simp
  then have uq: "u \<le> q" using assms(2) by (simp add: u_def ulp_exp_def)
  have pn: "(2::real) powr of_int (q - u) = of_int (2 ^ nat (q - u))"
    using uq by (intro pw_nat) simp
  have split: "(2::real) powr of_int q = 2 powr of_int (q - u) * 2 powr of_int u"
    by (simp add: powr_add[symmetric])
  have "x / 2 powr of_int u = of_int k * 2 powr of_int (q - u)"
    unfolding x_def split by simp
  also have "\<dots> = of_int (k * 2 ^ nat (q - u))"
    unfolding pn by simp
  finally have "rne (x / 2 powr of_int u) = k * 2 ^ nat (q - u)"
    by (simp only: rne_of_int)
  then have "round64 x = of_int (k * 2 ^ nat (q - u)) * 2 powr of_int u"
    using x0 by (simp add: round64_def u_def)
  also have "\<dots> = of_int k * (2 powr of_int (q - u) * 2 powr of_int u)"
    unfolding pn by simp
  also have "\<dots> = x" unfolding x_def split[symmetric] by simp
  finally show ?thesis by (simp add: x_def)
qed

lemma round64_exact_div:
  assumes "\<bar>k\<bar> < 2 ^ 53" and "n \<le> 1074"
  shows "round64 (of_int k / 2 ^ n) = of_int k / 2 ^ n"
proof -
  have "(2::real) powr of_int (- int n) = 1 / 2 ^ n"
    using powr_realpow[of 2 n] by (simp add: powr_minus divide_simps)
  then have "of_int k / 2 ^ n = of_int k * (2::real) powr of_int (- int n)" by simp
  moreover have "round64 (of_int k * 2 powr of_int (- int n)) = of_int k * 2 powr of_int (- int n)"
    using assms by (intro round64_exact) simp_all
  ultimately show ?thesis by simp
qed

lemma round64_nearest:
  assumes "2 ^ 52 < k" and "k < 2 ^ 53" and "- 1022 \<le> e"
    and "\<bar>x - of_int k * 2 powr of_int (e - 52)\<bar> < 2 powr of_int (e - 52) / 2"
  shows "round64 x = of_int k * 2 powr of_int (e - 52)"
proof -
  define g :: real where "g = 2 powr of_int (e - 52)"
  have g: "0 < g" by (simp add: g_def)
  have pe: "2 powr of_int e = 2 ^ 52 * g" and pe1: "2 powr of_int (e + 1) = 2 ^ 53 * g"
    by (simp_all add: g_def powr_diff powr_add)
  from assms(1) have "2 ^ 52 + 1 \<le> k" by simp
  then have "(of_int (2 ^ 52 + 1) :: real) \<le> of_int k" by (simp only: of_int_le_iff)
  then have k1: "(2::real) ^ 52 + 1 \<le> of_int k" by simp
  from assms(2) have "k + 1 \<le> 2 ^ 53" by simp
  then have "(of_int (k + 1) :: real) \<le> of_int (2 ^ 53)" by (simp only: of_int_le_iff)
  then have k2: "of_int k + 1 \<le> (2::real) ^ 53" by simp
  have a4: "\<bar>x - of_int k * g\<bar> < g / 2" using assms(4) unfolding g_def .
  have "x / g - of_int k = (x - of_int k * g) / g" using g by (simp add: field_simps)
  then have "\<bar>x / g - of_int k\<bar> = \<bar>x - of_int k * g\<bar> / g" using g by (simp add: abs_divide)
  also have "\<dots> < (g / 2) / g" using a4 g by (simp only: divide_strict_right_mono)
  finally have d: "\<bar>x / g - of_int k\<bar> < 1/2" using g by simp
  then have r: "rne (x / g) = k" by (rule rne_nearest)
  from d k1 have "2 ^ 52 < x / g" by linarith
  then have "2 ^ 52 * g < x" using g by (simp add: pos_less_divide_eq)
  then have lo: "2 powr of_int e \<le> x" by (simp only: pe)
  from d k2 have "x / g < 2 ^ 53" by linarith
  then have "x < 2 ^ 53 * g" using g by (simp add: pos_divide_less_eq)
  then have hi: "x < 2 powr of_int (e + 1)" by (simp only: pe1)
  have "0 < x" using lo powr_gt_zero[of 2 "of_int e"] by linarith
  have ax: "\<bar>x\<bar> = x" using \<open>0 < x\<close> by simp
  have "round64 x = of_int (rne (x / 2 powr of_int (e - 52))) * 2 powr of_int (e - 52)"
    using lo hi assms(3) by (intro round64_eval) (simp_all only: ax)
  then show ?thesis unfolding g_def[symmetric] r .
qed

lemma pw_neg: "(2::real) powr of_int (- int n) = 1 / 2 ^ n"
  using powr_realpow[of 2 n] by (simp add: powr_minus divide_simps)

lemma round64_pos_form:
  assumes "0 < x"
  shows "round64 x = of_int (rne (x / 2 powr of_int (ulp_exp x))) * 2 powr of_int (ulp_exp x)"
  using assms by (simp add: round64_def)

lemma round64_nonneg:
  assumes "0 \<le> x"
  shows "0 \<le> round64 x"
proof (cases "x = 0")
  case True
  then show ?thesis by (simp add: round64_def)
next
  case False
  with assms have "0 \<le> x / 2 powr of_int (ulp_exp x)" by simp
  then have "rne 0 \<le> rne (x / 2 powr of_int (ulp_exp x))" by (rule rne_mono)
  then have "0 \<le> rne (x / 2 powr of_int (ulp_exp x))" using rne_of_int[of 0] by simp
  then show ?thesis using False by (simp add: round64_def)
qed

lemma round64_upper:
  assumes "0 < x"
  shows "round64 x \<le> 2 powr of_int (ulp_exp x + 53)"
proof -
  define u where "u = ulp_exp x"
  define g :: real where "g = 2 powr of_int u"
  have g: "0 < g" by (simp add: g_def)
  have "expo x \<le> u + 52" by (simp add: u_def ulp_exp_def)
  then have "(2::real) powr of_int (expo x + 1) \<le> 2 powr of_int (u + 53)" by simp
  moreover have "x < 2 powr of_int (expo x + 1)" using expo_bounds(2)[of x] assms by simp
  ultimately have "x < 2 powr of_int (u + 53)" by linarith
  also have "\<dots> = 2 ^ 53 * g" by (simp add: g_def powr_add)
  finally have "x / g \<le> 2 ^ 53" using g by (simp add: pos_divide_le_eq)
  then have "x / g \<le> of_int (2 ^ 53)" by simp
  then have "rne (x / g) \<le> rne (of_int (2 ^ 53))" by (rule rne_mono)
  then have "rne (x / g) \<le> 2 ^ 53" by (simp only: rne_of_int)
  then have "(of_int (rne (x / g)) :: real) \<le> of_int (2 ^ 53)" by (simp only: of_int_le_iff)
  then have "of_int (rne (x / g)) * g \<le> 2 ^ 53 * g" using g by simp
  also have "2 ^ 53 * g = 2 powr of_int (u + 53)" by (simp add: g_def powr_add)
  finally show ?thesis unfolding round64_pos_form[OF assms] g_def u_def .
qed

lemma round64_lower:
  assumes "0 < x" and "- 1022 \<le> expo x"
  shows "2 powr of_int (expo x) \<le> round64 x"
proof -
  define u where "u = expo x - 52"
  define g :: real where "g = 2 powr of_int u"
  have g: "0 < g" by (simp add: g_def)
  have uu: "ulp_exp x = u" using assms(2) by (simp add: ulp_exp_def u_def)
  have pe: "2 powr of_int (expo x) = 2 ^ 52 * g" by (simp add: g_def u_def powr_diff)
  have "2 powr of_int (expo x) \<le> x" using expo_bounds(1)[of x] assms(1) by simp
  then have "2 ^ 52 * g \<le> x" by (simp only: pe)
  then have "2 ^ 52 \<le> x / g" using g by (simp add: pos_le_divide_eq)
  then have "of_int (2 ^ 52) \<le> x / g" by simp
  then have "rne (of_int (2 ^ 52)) \<le> rne (x / g)" by (rule rne_mono)
  then have "2 ^ 52 \<le> rne (x / g)" by (simp only: rne_of_int)
  then have "(of_int (2 ^ 52) :: real) \<le> of_int (rne (x / g))" by (simp only: of_int_le_iff)
  then have "2 ^ 52 * g \<le> of_int (rne (x / g)) * g" using g by simp
  then show ?thesis unfolding pe round64_pos_form[OF assms(1)] uu g_def .
qed

lemma expo_mono:
  assumes "0 < x" and "x \<le> y"
  shows "expo x \<le> expo y"
  unfolding expo_def using assms by (intro floor_mono) simp

lemma round64_mono_pos:
  assumes "0 < x" and "x \<le> y"
  shows "round64 x \<le> round64 y"
proof -
  have y: "0 < y" using assms by linarith
  have le: "ulp_exp x \<le> ulp_exp y"
    using expo_mono[OF assms] by (simp add: ulp_exp_def)
  show ?thesis
  proof (cases "ulp_exp x = ulp_exp y")
    case True
    have "x / 2 powr of_int (ulp_exp y) \<le> y / 2 powr of_int (ulp_exp y)"
      using assms(2) by (simp add: divide_right_mono)
    then have "rne (x / 2 powr of_int (ulp_exp y)) \<le> rne (y / 2 powr of_int (ulp_exp y))"
      by (rule rne_mono)
    then have "(of_int (rne (x / 2 powr of_int (ulp_exp y))) :: real)
        \<le> of_int (rne (y / 2 powr of_int (ulp_exp y)))" by (simp only: of_int_le_iff)
    then show ?thesis
      unfolding round64_pos_form[OF assms(1)] round64_pos_form[OF y] True by simp
  next
    case False
    with le have lt: "ulp_exp x < ulp_exp y" by simp
    then have "- 1074 < ulp_exp y" using ulp_exp_ge[of x] by linarith
    then have ey: "ulp_exp y = expo y - 52" and ny: "- 1022 \<le> expo y"
      by (simp_all add: ulp_exp_def max_def split: if_splits)
    have "round64 x \<le> 2 powr of_int (ulp_exp x + 53)" by (rule round64_upper[OF assms(1)])
    also have "\<dots> \<le> 2 powr of_int (expo y)" using lt ey by simp
    also have "\<dots> \<le> round64 y" by (rule round64_lower[OF y ny])
    finally show ?thesis .
  qed
qed

lemma round64_mono:
  assumes "0 \<le> x" and "x \<le> y"
  shows "round64 x \<le> round64 y"
proof (cases "x = 0")
  case True
  with assms show ?thesis by (simp add: round64_zero round64_nonneg)
next
  case False
  with assms show ?thesis by (intro round64_mono_pos) simp_all
qed

lemma rne_bound:
  assumes "\<bar>r\<bar> \<le> of_int n"
  shows "\<bar>rne r\<bar> \<le> n"
proof -
  from assms have lo: "of_int (- n) \<le> r" and hi: "r \<le> of_int n"
    by (simp_all add: abs_le_iff)
  have "rne (of_int (- n)) \<le> rne r" using lo by (rule rne_mono)
  moreover have "rne r \<le> rne (of_int n)" using hi by (rule rne_mono)
  ultimately show ?thesis by (simp only: rne_of_int abs_le_iff) simp
qed

lemma round64_idem: "round64 (round64 x) = round64 x"
proof (cases "x = 0")
  case True
  then show ?thesis by (simp add: round64_zero)
next
  case False
  define u where "u = ulp_exp x"
  define g :: real where "g = 2 powr of_int u"
  define k where "k = rne (x / g)"
  have g: "0 < g" by (simp add: g_def)
  have r: "round64 x = of_int k * g" using False by (simp add: round64_def k_def g_def u_def)
  have "expo x \<le> u + 52" by (simp add: u_def ulp_exp_def)
  then have "(2::real) powr of_int (expo x + 1) \<le> 2 powr of_int (u + 53)" by simp
  moreover have "\<bar>x\<bar> < 2 powr of_int (expo x + 1)" using expo_bounds(2)[OF False] .
  ultimately have "\<bar>x\<bar> < 2 powr of_int (u + 53)" by linarith
  also have "\<dots> = 2 ^ 53 * g" by (simp add: g_def powr_add)
  finally have "\<bar>x\<bar> / g \<le> 2 ^ 53" using g by (simp add: pos_divide_le_eq)
  then have "\<bar>x / g\<bar> \<le> of_int (2 ^ 53)" using g by (simp add: abs_divide)
  then have kb: "\<bar>k\<bar> \<le> 2 ^ 53" unfolding k_def by (rule rne_bound)
  have u: "- 1074 \<le> u" by (simp add: u_def ulp_exp_ge)
  show ?thesis
  proof (cases "\<bar>k\<bar> < 2 ^ 53")
    case True
    then have "round64 (of_int k * 2 powr of_int u) = of_int k * 2 powr of_int u"
      using u by (rule round64_exact)
    then show ?thesis by (simp add: r g_def)
  next
    case False
    with kb have "\<bar>k\<bar> = 2 ^ 53" by simp
    then obtain s :: int where s: "k = s * 2" and sb: "\<bar>s\<bar> < 2 ^ 53"
      by (cases "0 \<le> k") (auto intro: that[of "2 ^ 52"] that[of "- (2 ^ 52)"])
    have "of_int k * g = of_int s * 2 powr of_int (u + 1)"
      by (simp add: s g_def powr_add)
    moreover have "round64 (of_int s * 2 powr of_int (u + 1)) = of_int s * 2 powr of_int (u + 1)"
      using sb u by (intro round64_exact) simp_all
    ultimately show ?thesis by (simp add: r)
  qed
qed

lemma round64_err: "\<bar>round64 x - x\<bar> \<le> 2 powr of_int (ulp_exp x) / 2"
proof (cases "x = 0")
  case True
  then show ?thesis by (simp add: round64_zero)
next
  case False
  define g :: real where "g = 2 powr of_int (ulp_exp x)"
  have g: "0 < g" by (simp add: g_def)
  have "round64 x - x = (of_int (rne (x / g)) - x / g) * g"
    using False g by (simp add: round64_def g_def field_simps)
  then have "\<bar>round64 x - x\<bar> = \<bar>of_int (rne (x / g)) - x / g\<bar> * g"
    using g by (simp add: abs_mult)
  also have "\<dots> \<le> (1/2) * g" using rne_err[of "x / g"] g by (intro mult_right_mono) simp_all
  finally show ?thesis by (simp add: g_def)
qed

lemma round64_err_unit:
  assumes "0 \<le> x" and "x \<le> 1"
  shows "\<bar>round64 x - x\<bar> \<le> 1 / 2 ^ 54"
proof (cases "x = 0 \<or> x = 1")
  case True
  then show ?thesis using round64_exact_div[of 1 0] by (auto simp: round64_zero)
next
  case False
  with assms have x: "0 < x" "x < 1" by simp_all
  have "log 2 x < 0" using x by simp
  then have "expo x < 0" using x by (simp add: expo_def floor_less_iff)
  then have "ulp_exp x \<le> - 53" by (simp add: ulp_exp_def)
  then have "(2::real) powr of_int (ulp_exp x) \<le> 2 powr of_int (- int 53)" by (intro pw_mono) simp
  then have "(2::real) powr of_int (ulp_exp x) \<le> 1 / 2 ^ 53" by (simp only: pw_neg)
  then have "(2::real) powr of_int (ulp_exp x) / 2 \<le> 1 / 2 ^ 54" by simp
  with round64_err[of x] show ?thesis by linarith
qed

lemma round64_err_two:
  assumes "0 \<le> x" and "x < 2"
  shows "\<bar>round64 x - x\<bar> \<le> 1 / 2 ^ 53"
proof (cases "x = 0")
  case True
  then show ?thesis by (simp add: round64_zero)
next
  case False
  with assms have x: "0 < x" by simp
  have "log 2 x < 1" using x assms(2) by simp
  then have "expo x < 1" using x by (simp add: expo_def floor_less_iff)
  then have "ulp_exp x \<le> - 52" by (simp add: ulp_exp_def)
  then have "(2::real) powr of_int (ulp_exp x) \<le> 2 powr of_int (- int 52)" by (intro pw_mono) simp
  then have "(2::real) powr of_int (ulp_exp x) \<le> 1 / 2 ^ 52" by (simp only: pw_neg)
  then have "(2::real) powr of_int (ulp_exp x) / 2 \<le> 1 / 2 ^ 53" by simp
  with round64_err[of x] show ?thesis by linarith
qed

lemma round64_eval_small:
  assumes "1 / 2 ^ n \<le> \<bar>x\<bar>" and "\<bar>x\<bar> < 2 / 2 ^ n" and "n \<le> 1022"
  shows "round64 x = of_int (rne (x * 2 ^ (n + 52))) / 2 ^ (n + 52)"
proof -
  have a: "2 powr of_int (- int n) \<le> \<bar>x\<bar>" using assms(1) by (simp only: pw_neg)
  have "(2::real) powr of_int (- int n + 1) = 2 / 2 ^ n"
    by (simp only: pw_add pw_neg) simp
  then have b: "\<bar>x\<bar> < 2 powr of_int (- int n + 1)" using assms(2) by simp
  have c: "- 1022 \<le> - int n" using assms(3) by simp
  have "- int n - 52 = - int (n + 52)" by simp
  then have g: "(2::real) powr of_int (- int n - 52) = 1 / 2 ^ (n + 52)" by (simp only: pw_neg)
  show ?thesis using round64_eval[OF a b c] unfolding g by simp
qed

lemma round64_nearest_small:
  assumes "2 ^ 52 < k" and "k < 2 ^ 53" and "n \<le> 1022"
    and "\<bar>x - of_int k / 2 ^ (n + 52)\<bar> < 1 / 2 ^ (n + 53)"
  shows "round64 x = of_int k / 2 ^ (n + 52)"
proof -
  have c: "- 1022 \<le> - int n" using assms(3) by simp
  have "- int n - 52 = - int (n + 52)" by simp
  then have g: "(2::real) powr of_int (- int n - 52) = 1 / 2 ^ (n + 52)" by (simp only: pw_neg)
  have "n + 53 = Suc (n + 52)" by simp
  then have h: "(1::real) / 2 ^ (n + 53) = 1 / 2 ^ (n + 52) / 2" by (simp only: power_Suc) simp
  have "\<bar>x - of_int k * 2 powr of_int (- int n - 52)\<bar> < 2 powr of_int (- int n - 52) / 2"
    unfolding g using assms(4) unfolding h by simp
  from round64_nearest[OF assms(1,2) c this] show ?thesis unfolding g by simp
qed

lemma round64_threshold: "round64 (2/10) = 3602879701896397 / 2 ^ 54"
proof -
  have "round64 (2/10) = of_int (rne ((2/10) * 2 ^ (3 + 52))) / 2 ^ (3 + 52)"
    by (rule round64_eval_small) simp_all
  also have "rne ((2/10) * 2 ^ (3 + 52)) = 7205759403792794" by (simp add: rne_def Let_def)
  finally show ?thesis by simp
qed

lemma round64_tie: "round64 (1 - 1 / 2 ^ 54) = 1"
proof -
  have "round64 (1 - 1 / 2 ^ 54) = of_int (rne ((1 - 1 / 2 ^ 54) * 2 ^ (1 + 52))) / 2 ^ (1 + 52)"
    by (rule round64_eval_small) simp_all
  also have "rne ((1 - 1 / 2 ^ 54) * 2 ^ (1 + 52)) = 9007199254740992" by (simp add: rne_def Let_def)
  finally show ?thesis by simp
qed

subsection \<open>Gesture evaluator\<close>

lemma handOnHead_Some:
  "handOnHead (Some f) (Some n) =
     Inr (rounded_distance f n < round64 0.2 \<and> lm_y f < lm_y n)"
  by (simp add: handOnHead_def getDistance_def js_bind_def rounded_distance_def
      HEAD_PROXIMITY_THRESHOLD_def js_sqrt_def js_add_def js_sub_def js_pow2_def
      power2_eq_square)

lemma checkFingerOnHead_Some:
  assumes "js_index ls NOSE = Some nose"
    and "js_index ls LEFT_INDEX = Some li"
    and "js_index ls RIGHT_INDEX = Some ri"
  shows "checkFingerOnHead (Some ls) =
           Inr ((rounded_distance li nose < round64 0.2 \<and> lm_y li < lm_y nose) \<or>
                (rounded_distance ri nose < round64 0.2 \<and> lm_y ri < lm_y nose))"
proof -
  from assms(1) have "ls \<noteq> []"
    by (auto simp: js_index_def)
  with assms show ?thesis
    by (simp add: checkFingerOnHead_def handOnHead_Some js_bind_def)
qed

lemma round64_dyadic:
  "round64 (1/4) = 1/4" "round64 (- (1/4)) = - (1/4)"
  "round64 (1/8) = 1/8" "round64 (- (1/8)) = - (1/8)"
  "round64 (1/16) = 1/16" "round64 (1/64) = 1/64"
  "round64 1 = 1" "round64 (3/4) = 3/4" "round64 (3/2) = 3/2" "round64 (- (1/2)) = - (1/2)"
  using round64_exact_div[of 1 2] round64_exact_div[of "- 1" 2]
    round64_exact_div[of 1 3] round64_exact_div[of "- 1" 3]
    round64_exact_div[of 1 4] round64_exact_div[of 1 6]
    round64_exact_div[of 1 0] round64_exact_div[of 3 2] round64_exact_div[of 3 1]
    round64_exact_div[of "- 1" 1]
  by simp_all

lemma sqrt_dyadic: "sqrt (1/64) = 1/8" "sqrt (1/16) = 1/4"
  by (rule real_sqrt_unique; simp add: power2_eq_square)+

lemma rounded_distance_above:
  "rounded_distance \<lparr>lm_x = 1/2, lm_y = 3/8\<rparr> centre = 1/8"
  "rounded_distance \<lparr>lm_x = 1/2, lm_y = 1/4\<rparr> centre = 1/4"
  "rounded_distance centre centre = 0"
  by (simp_all add: rounded_distance_def centre_def round64_zero round64_dyadic sqrt_dyadic
      power2_eq_square)

lemma threshold_value: "round64 (1/5) = 3602879701896397 / 18014398509481984"
  using round64_threshold by simp

lemma centre_y: "lm_y centre = 1/2"
  by (simp add: centre_def)

lemma frame_touch_idx:
  "js_index frame_touch NOSE = Some centre"
  "js_index frame_touch LEFT_INDEX = Some \<lparr>lm_x = 1/2, lm_y = 3/8\<rparr>"
  "js_index frame_touch RIGHT_INDEX = Some centre"
  by (simp_all add: js_index_def frame_touch_def frame_centre_def NOSE_def LEFT_INDEX_def
      RIGHT_INDEX_def)

lemma frame_far_idx:
  "js_index frame_far NOSE = Some centre"
  "js_index frame_far LEFT_INDEX = Some \<lparr>lm_x = 1/2, lm_y = 1/4\<rparr>"
  "js_index frame_far RIGHT_INDEX = Some \<lparr>lm_x = 1/2, lm_y = 1/4\<rparr>"
  by (simp_all add: js_index_def frame_far_def frame_centre_def NOSE_def LEFT_INDEX_def
      RIGHT_INDEX_def)

lemma frame_boundary_idx:
  "js_index frame_boundary NOSE = Some centre"
  "js_index frame_boundary LEFT_INDEX = Some near_finger"
  "js_index frame_boundary RIGHT_INDEX = Some centre"
  by (simp_all add: js_index_def frame_boundary_def frame_centre_def NOSE_def LEFT_INDEX_def
      RIGHT_INDEX_def)

lemma near_finger_rounded: "rounded_distance near_finger centre = 3602879701896397 / 2 ^ 54"
proof -
  have dx: "round64 (lm_x near_finger - lm_x centre) = 1652210256180535 / 2 ^ 53"
    using round64_exact_div[of 1652210256180535 53] by (simp add: near_finger_def centre_def)
  have dy: "round64 (lm_y near_finger - lm_y centre) = - (5348805 / 2 ^ 26)"
    using round64_exact_div[of "- 5348805" 26] by (simp add: near_finger_def centre_def)
  have "round64 ((1652210256180535 / 2 ^ 53)\<^sup>2)
      = of_int (rne ((1652210256180535 / 2 ^ 53)\<^sup>2 * 2 ^ (5 + 52))) / 2 ^ (5 + 52)"
    by (rule round64_eval_small) (simp_all add: power2_eq_square)
  also have "rne ((1652210256180535 / 2 ^ 53)\<^sup>2 * 2 ^ (5 + 52)) = 4849096645337435"
    by (simp add: rne_def Let_def power2_eq_square)
  finally have sx: "round64 ((1652210256180535 / 2 ^ 53)\<^sup>2) = 4849096645337435 / 2 ^ 57"
    by simp
  have sy: "round64 ((- (5348805 / 2 ^ 26))\<^sup>2) = 28609714928025 / 2 ^ 52"
    using round64_exact_div[of 28609714928025 52] by (simp add: power2_eq_square)
  have s: "round64 (4849096645337435 / 2 ^ 57 + 28609714928025 / 2 ^ 52)
      = 5764607523034235 / 2 ^ 57"
    using round64_exact_div[of 5764607523034235 57] by simp
  have lo: "(7205759403792794 / 2 ^ 55 - 1 / 2 ^ 56 :: real) < sqrt (5764607523034235 / 2 ^ 57)"
    by (rule real_less_rsqrt) (simp add: power2_eq_square)
  have hi: "sqrt (5764607523034235 / 2 ^ 57) < (7205759403792794 / 2 ^ 55 + 1 / 2 ^ 56 :: real)"
    by (rule real_less_lsqrt) (simp_all add: power2_eq_square)
  have "\<bar>sqrt (5764607523034235 / 2 ^ 57) - of_int 7205759403792794 / 2 ^ (3 + 52)\<bar>
          < 1 / 2 ^ (3 + 53)"
    unfolding abs_less_iff using lo hi by simp
  then have "round64 (sqrt (5764607523034235 / 2 ^ 57)) = of_int 7205759403792794 / 2 ^ (3 + 52)"
    by (intro round64_nearest_small) simp_all
  then have d: "round64 (sqrt (5764607523034235 / 2 ^ 57)) = 3602879701896397 / 2 ^ 54"
    by simp
  show ?thesis
    unfolding rounded_distance_def dx dy sx sy s d ..
qed

lemma near_finger_exact:
  "euclid near_finger centre < 0.2" "lm_y near_finger < lm_y centre"
proof -
  show "euclid near_finger centre < 0.2"
    unfolding euclid_def
    by (rule real_less_lsqrt) (simp_all add: near_finger_def centre_def power2_eq_square)
  show "lm_y near_finger < lm_y centre"
    by (simp add: near_finger_def centre_def)
qed

text \<open>
  C5, as the specification states it, fails in the code's arithmetic. The left index finger
  of this frame is above the nose and its Euclidean distance to the nose is strictly below
  0.2, yet the evaluator returns false: the sum of the rounded squares is the double
  nearest to 0.04, its rounded square root is the double nearest to 0.2, and that is not
  strictly below the threshold, which is the same double.
\<close>

theorem checkFingerOnHead_boundary_counterexample:
  "js_index frame_boundary NOSE = Some centre
   \<and> js_index frame_boundary LEFT_INDEX = Some near_finger
   \<and> js_index frame_boundary RIGHT_INDEX = Some centre
   \<and> euclid near_finger centre < 0.2
   \<and> lm_y near_finger < lm_y centre
   \<and> checkFingerOnHead (Some frame_boundary) = Inr False"
  using checkFingerOnHead_Some[OF frame_boundary_idx] near_finger_exact
  by (simp add: frame_boundary_idx near_finger_rounded threshold_value rounded_distance_above
      centre_y)

text \<open>
  C5, amended. For a landmark frame that holds the nose, the left index and the right
  index landmark, the gesture evaluator returns true exactly when for at least one hand
  the Euclidean distance between the index finger tip and the nose, computed in double
  arithmetic (each difference, square, the sum and the square root rounded to the nearest
  double), is strictly below the double nearest to 0.2, which is
  3602879701896397 / 2^54, and the finger's y coordinate is strictly smaller than the
  nose's. In particular it returns false whenever both computed distances are strictly
  greater than that threshold, whatever the vertical positions are.
\<close>

theorem checkFingerOnHead_rounded:
  assumes "js_index ls NOSE = Some nose"
    and "js_index ls LEFT_INDEX = Some li"
    and "js_index ls RIGHT_INDEX = Some ri"
  shows "checkFingerOnHead (Some ls) =
           Inr ((rounded_distance li nose < round64 0.2 \<and> lm_y li < lm_y nose) \<or>
                (rounded_distance ri nose < round64 0.2 \<and> lm_y ri < lm_y nose))
         \<and> (round64 0.2 < rounded_distance li nose \<and> round64 0.2 < rounded_distance ri nose
              \<longrightarrow> checkFingerOnHead (Some ls) = Inr False)
         \<and> round64 0.2 = 3602879701896397 / 2 ^ 54"
  using checkFingerOnHead_Some[OF assms] round64_threshold by auto

theorem checkFingerOnHead_rounded_witness:
  "js_index frame_touch NOSE = Some centre
   \<and> js_index frame_touch LEFT_INDEX = Some \<lparr>lm_x = 1/2, lm_y = 3/8\<rparr>
   \<and> js_index frame_touch RIGHT_INDEX = Some centre
   \<and> rounded_distance \<lparr>lm_x = 1/2, lm_y = 3/8\<rparr> centre = 1/8
   \<and> checkFingerOnHead (Some frame_touch) = Inr True
   \<and> js_index frame_far NOSE = Some centre
   \<and> js_index frame_far LEFT_INDEX = Some \<lparr>lm_x = 1/2, lm_y = 1/4\<rparr>
   \<and> js_index frame_far RIGHT_INDEX = Some \<lparr>lm_x = 1/2, lm_y = 1/4\<rparr>
   \<and> round64 0.2 < rounded_distance \<lparr>lm_x = 1/2, lm_y = 1/4\<rparr> centre
   \<and> lm_y \<lparr>lm_x = 1/2, lm_y = 1/4\<rparr> < lm_y centre
   \<and> checkFingerOnHead (Some frame_far) = Inr False"
  using checkFingerOnHead_rounded[OF frame_touch_idx] checkFingerOnHead_rounded[OF frame_far_idx]
  by (simp add: rounded_distance_above threshold_value centre_y frame_touch_idx frame_far_idx)

text \<open>
  C6. When the landmark frame is absent or empty, or the nose, the left index or the
  right index landmark is missing from it (undefined at its index, or the frame too short
  to have that index), the gesture evaluator returns false: its result is the value
  false, not an error.
\<close>

theorem checkFingerOnHead_missing:
  assumes "lms = None \<or> lms = Some [] \<or>
     (\<exists>ls. lms = Some ls \<and> (js_index ls NOSE = None \<or> js_index ls LEFT_INDEX = None
                              \<or> js_index ls RIGHT_INDEX = None))"
  shows "checkFingerOnHead lms = Inr False"
  using assms by (auto simp: checkFingerOnHead_def Let_def)

theorem checkFingerOnHead_missing_witness:
  "js_index frame_no_left LEFT_INDEX = None
   \<and> checkFingerOnHead (Some frame_no_left) = Inr False
   \<and> js_index frame_short RIGHT_INDEX = None
   \<and> checkFingerOnHead (Some frame_short) = Inr False
   \<and> checkFingerOnHead (Some []) = Inr False
   \<and> checkFingerOnHead None = Inr False"
proof -
  have a: "js_index frame_no_left LEFT_INDEX = None"
    by (simp add: js_index_def frame_no_left_def frame_centre_def LEFT_INDEX_def)
  have b: "js_index frame_short RIGHT_INDEX = None"
    by (simp add: js_index_def frame_short_def RIGHT_INDEX_def)
  from a b show ?thesis
    using checkFingerOnHead_missing[of "Some frame_no_left"]
      checkFingerOnHead_missing[of "Some frame_short"]
      checkFingerOnHead_missing[of "Some []"]
      checkFingerOnHead_missing[of None]
    by simp
qed

subsection \<open>Presence debouncer\<close>

lemma tick_nobody:
  assumes "stateRef s = WAITING_FOR_CLEAR_VIEW" and "\<not> hasPeople (poseLandmarks r)"
  shows "tick r s =
    (if 30 \<le> noPersonTimerRef s
     then s\<lparr>latestResultsRef := Some r, noPersonTimerRef := Suc (noPersonTimerRef s),
            appState := CAPTURING_BACKGROUND\<rparr>
     else s\<lparr>latestResultsRef := Some r, noPersonTimerRef := Suc (noPersonTimerRef s)\<rparr>)"
  using assms by (simp add: tick_def wrappedOnResults_def onResults_def Let_def)

lemma tick_somebody:
  assumes "stateRef s = WAITING_FOR_CLEAR_VIEW" and "hasPeople (poseLandmarks r)"
  shows "tick r s = s\<lparr>latestResultsRef := Some r, noPersonTimerRef := 0\<rparr>"
  using assms by (simp add: tick_def wrappedOnResults_def onResults_def Let_def)

lemma run_ticks_nobody:
  assumes "stateRef s = WAITING_FOR_CLEAR_VIEW" and "list_all absent rs"
  shows "stateRef (run_ticks rs s) = WAITING_FOR_CLEAR_VIEW
       \<and> noPersonTimerRef (run_ticks rs s) = noPersonTimerRef s + length rs
       \<and> appState (run_ticks rs s) =
           (if rs \<noteq> [] \<and> 31 \<le> noPersonTimerRef s + length rs
            then CAPTURING_BACKGROUND else appState s)"
  using assms
proof (induction rs arbitrary: s)
  case Nil
  then show ?case by simp
next
  case (Cons r rs)
  from Cons.prems have ar: "absent r" and rs: "list_all absent rs"
    by simp_all
  from ar have r: "\<not> hasPeople (poseLandmarks r)"
    by (simp add: absent_def)
  have st: "stateRef (tick r s) = WAITING_FOR_CLEAR_VIEW"
    using Cons.prems(1) r by (simp add: tick_nobody)
  have cnt: "noPersonTimerRef (tick r s) = Suc (noPersonTimerRef s)"
    using Cons.prems(1) r by (simp add: tick_nobody)
  have app: "appState (tick r s) =
      (if 30 \<le> noPersonTimerRef s then CAPTURING_BACKGROUND else appState s)"
    using Cons.prems(1) r by (simp add: tick_nobody)
  from Cons.IH[OF st rs] cnt app show ?case
    by (cases rs) auto
qed

lemma absent_nobody: "absent nobody"
  by (simp add: absent_def nobody_def hasPeople_def)

lemma all_absent_nobody: "list_all absent (replicate n nobody)"
  by (simp add: list_all_iff absent_nobody)

lemma waiting_app_simps:
  "stateRef waiting_app = WAITING_FOR_CLEAR_VIEW"
  "appState waiting_app = WAITING_FOR_CLEAR_VIEW"
  "noPersonTimerRef waiting_app = 0"
  by (simp_all add: waiting_app_def initial_app_def)

text \<open>
  C1, as the specification states it, fails: after exactly 30 consecutive results without
  a person, counted from zero in WaitingForClearView, the counter is 30, which does not
  exceed 30, and the state is still WaitingForClearView.
\<close>

theorem debounce_tick30_counterexample:
  "appState (run_ticks (replicate 30 nobody) waiting_app) = WAITING_FOR_CLEAR_VIEW
   \<and> appState (run_ticks (replicate 30 nobody) waiting_app) \<noteq> CAPTURING_BACKGROUND
   \<and> noPersonTimerRef (run_ticks (replicate 30 nobody) waiting_app) = 30"
  using run_ticks_nobody[OF waiting_app_simps(1) all_absent_nobody, of 30]
  by (simp add: waiting_app_simps)

text \<open>
  C1, amended. In WaitingForClearView with the counter at zero, a run of consecutive
  results without a person requests CapturingBackground on the 31st of them (the first
  on which the counter exceeds 30) and not earlier; the counter equals the number
  of such results so far. A result on which a person is detected sets the counter to
  exactly 0, at any point of the run and in any state whose committed state is
  WaitingForClearView, and requests no transition.
\<close>

theorem debounce_tick31:
  assumes "stateRef s = WAITING_FOR_CLEAR_VIEW" and "appState s = WAITING_FOR_CLEAR_VIEW"
    and "noPersonTimerRef s = 0" and "list_all absent rs"
  shows "appState (run_ticks rs s) =
           (if 31 \<le> length rs then CAPTURING_BACKGROUND else WAITING_FOR_CLEAR_VIEW)
       \<and> noPersonTimerRef (run_ticks rs s) = length rs
       \<and> (\<forall>r. hasPeople (poseLandmarks r) \<longrightarrow>
             noPersonTimerRef (tick r (run_ticks rs s)) = 0
           \<and> appState (tick r (run_ticks rs s)) = appState (run_ticks rs s))
       \<and> (\<forall>r s'. stateRef s' = WAITING_FOR_CLEAR_VIEW \<and> hasPeople (poseLandmarks r) \<longrightarrow>
             noPersonTimerRef (tick r s') = 0 \<and> appState (tick r s') = appState s')"
proof -
  note run = run_ticks_nobody[OF assms(1) assms(4)]
  have a: "appState (run_ticks rs s) =
           (if 31 \<le> length rs then CAPTURING_BACKGROUND else WAITING_FOR_CLEAR_VIEW)"
    using run assms(2,3) by auto
  have b: "noPersonTimerRef (run_ticks rs s) = length rs"
    using run assms(3) by simp
  have c: "noPersonTimerRef (tick r (run_ticks rs s)) = 0
           \<and> appState (tick r (run_ticks rs s)) = appState (run_ticks rs s)"
    if "hasPeople (poseLandmarks r)" for r
    using run that by (simp add: tick_somebody)
  have d: "noPersonTimerRef (tick r s') = 0 \<and> appState (tick r s') = appState s'"
    if "stateRef s' = WAITING_FOR_CLEAR_VIEW \<and> hasPeople (poseLandmarks r)" for r s'
    using that by (simp add: tick_somebody)
  from a b c d show ?thesis by blast
qed

theorem debounce_tick31_witness:
  "stateRef waiting_app = WAITING_FOR_CLEAR_VIEW
   \<and> appState waiting_app = WAITING_FOR_CLEAR_VIEW
   \<and> noPersonTimerRef waiting_app = 0
   \<and> list_all absent (replicate 31 nobody)
   \<and> appState (run_ticks (replicate 31 nobody) waiting_app) = CAPTURING_BACKGROUND
   \<and> list_all absent (replicate 12 nobody)
   \<and> appState (run_ticks (replicate 12 nobody) waiting_app) = WAITING_FOR_CLEAR_VIEW
   \<and> noPersonTimerRef (run_ticks (replicate 12 nobody) waiting_app) = 12
   \<and> hasPeople (poseLandmarks somebody)
   \<and> noPersonTimerRef (tick somebody (run_ticks (replicate 12 nobody) waiting_app)) = 0"
proof -
  have p: "hasPeople (poseLandmarks somebody)"
    by (simp add: somebody_def hasPeople_def frame_centre_def)
  from p show ?thesis
    using debounce_tick31[OF waiting_app_simps all_absent_nobody, of 31]
      debounce_tick31[OF waiting_app_simps all_absent_nobody, of 12]
    by (simp add: waiting_app_simps all_absent_nobody)
qed

subsection \<open>Invariant of the reachable states\<close>

lemma tick_unchanged:
  "backgroundDataUrl (tick r s) = backgroundDataUrl s"
  "stateRef (tick r s) = stateRef s"
  "initPending (tick r s) = initPending s"
  "scene (tick r s) = scene s"
  by (simp_all add: tick_def wrappedOnResults_def onResults_def Let_def js_bind_def
      split: sum.splits)

lemma tick_appState:
  "appState (tick r s) = appState s
   \<or> (stateRef s = WAITING_FOR_CLEAR_VIEW \<and> appState (tick r s) = CAPTURING_BACKGROUND)"
  by (simp add: tick_def wrappedOnResults_def onResults_def Let_def js_bind_def
      split: sum.splits)

lemma tick_counter:
  "noPersonTimerRef (tick r s) = noPersonTimerRef s \<or> stateRef s = WAITING_FOR_CLEAR_VIEW"
  by (simp add: tick_def wrappedOnResults_def onResults_def Let_def js_bind_def
      split: sum.splits)

lemma app_inv_tick: "app_inv s \<Longrightarrow> app_inv (tick r s)"
  using tick_appState[of r s] tick_counter[of r s]
  unfolding app_inv_def tick_unchanged
  by (elim disjE conjE) (simp_all, auto)

lemma capture_cases:
  "captureBackground vid ctx s = s
   \<or> (appState s = CAPTURING_BACKGROUND \<and> ctx \<and>
       (\<exists>v. vid = Some v \<and> captureBackground vid ctx s =
          s\<lparr>backgroundDataUrl := Some \<lparr>cv_width = videoWidth v, cv_height = videoHeight v,
                                          cv_content = Some (videoFrame v)\<rparr>,
            appState := ACTIVE, statusMessage := MsgEmpty\<rparr>))"
  by (cases vid) (simp_all add: captureBackground_def Let_def)

lemma render_unchanged:
  "initPending (render vid ctx s) = initPending s"
  "noPersonTimerRef (render vid ctx s) = noPersonTimerRef s"
  "stateRef (render vid ctx s) = appState s"
  using capture_cases[of vid ctx "s\<lparr>scene := (if appState s = ACTIVE \<and> backgroundDataUrl s \<noteq> None
                  then (case scene s of None \<Rightarrow> Some (mountQuad vid) | Some q \<Rightarrow> Some q)
                  else None), stateRef := appState s\<rparr>"]
  by (auto simp: render_def Let_def)

lemma render_plate:
  "(appState (render vid ctx s) = appState s
      \<and> backgroundDataUrl (render vid ctx s) = backgroundDataUrl s)
   \<or> (appState s = CAPTURING_BACKGROUND \<and> appState (render vid ctx s) = ACTIVE
      \<and> backgroundDataUrl (render vid ctx s) \<noteq> None)"
  using capture_cases[of vid ctx "s\<lparr>scene := (if appState s = ACTIVE \<and> backgroundDataUrl s \<noteq> None
                  then (case scene s of None \<Rightarrow> Some (mountQuad vid) | Some q \<Rightarrow> Some q)
                  else None), stateRef := appState s\<rparr>"]
  by (auto simp: render_def Let_def)

lemma render_scene:
  "scene (render vid ctx s) = None \<or> (appState s = ACTIVE \<and> backgroundDataUrl s \<noteq> None)"
  using capture_cases[of vid ctx "s\<lparr>scene := (if appState s = ACTIVE \<and> backgroundDataUrl s \<noteq> None
                  then (case scene s of None \<Rightarrow> Some (mountQuad vid) | Some q \<Rightarrow> Some q)
                  else None), stateRef := appState s\<rparr>"]
  by (auto simp: render_def Let_def)

lemma app_inv_render:
  assumes "app_inv s"
  shows "app_inv (render vid ctx s)"
proof -
  from assms have p: "initPending s \<le> 1" "initPending s = 1 \<longrightarrow> appState s = INITIALIZING"
    and ie: "appState s = INITIALIZING \<or> appState s = ERROR \<longrightarrow>
            backgroundDataUrl s = None \<and> noPersonTimerRef s = 0
            \<and> (stateRef s = INITIALIZING \<or> stateRef s = ERROR)"
    and pl: "backgroundDataUrl s \<noteq> None \<longleftrightarrow> appState s = ACTIVE"
    and sc: "scene s \<noteq> None \<longrightarrow> appState s = ACTIVE"
    by (simp_all add: app_inv_def)
  from render_plate[of vid ctx s] show ?thesis
  proof (elim disjE conjE)
    assume a: "appState (render vid ctx s) = appState s"
      and b: "backgroundDataUrl (render vid ctx s) = backgroundDataUrl s"
    from render_scene[of vid ctx s] pl
    have sc': "scene (render vid ctx s) \<noteq> None \<longrightarrow> appState s = ACTIVE" by auto
    show ?thesis
      unfolding app_inv_def render_unchanged a b
      using p ie pl sc' by auto
  next
    assume a: "appState s = CAPTURING_BACKGROUND"
      and b: "appState (render vid ctx s) = ACTIVE"
      and c: "backgroundDataUrl (render vid ctx s) \<noteq> None"
    from render_scene[of vid ctx s] a
    have sc': "scene (render vid ctx s) = None" by simp
    show ?thesis
      unfolding app_inv_def render_unchanged
      using p a b c sc' by simp
  qed
qed

lemma app_inv_step:
  assumes "app_inv s" and "enabled e s"
  shows "app_inv (step e s)"
proof (cases e)
  case (Results r)
  with assms show ?thesis by (simp add: app_inv_tick)
next
  case (Render vid ctx)
  with assms show ?thesis by (simp add: app_inv_render)
next
  case InitResolved
  with assms show ?thesis by (auto simp: app_inv_def initialized_def)
next
  case InitRejected
  with assms show ?thesis by (auto simp: app_inv_def initFailed_def)
next
  case Retry
  with assms show ?thesis by (auto simp: app_inv_def retry_def)
next
  case (Frame f)
  with assms show ?thesis by (auto simp: app_inv_def)
next
  case (BgLoaded t)
  with assms show ?thesis by (auto simp: app_inv_def)
qed

lemma reachable_inv: "reachable s \<Longrightarrow> app_inv s"
proof (induction rule: reachable.induct)
  case reachable_init
  show ?case by (simp add: app_inv_def initial_app_def)
next
  case (reachable_step s e)
  then show ?case by (simp add: app_inv_step)
qed

lemma plate_kept:
  assumes "app_inv s" and "enabled e s" and "backgroundDataUrl s \<noteq> None"
  shows "backgroundDataUrl (step e s) = backgroundDataUrl s"
proof (cases e)
  case (Results r)
  then show ?thesis by (simp add: tick_unchanged)
next
  case (Render vid ctx)
  from assms(1,3) have "appState s = ACTIVE" by (simp add: app_inv_def)
  with render_plate[of vid ctx s] Render show ?thesis by auto
next
  case InitResolved
  with assms show ?thesis by (auto simp: app_inv_def initialized_def)
next
  case InitRejected
  with assms show ?thesis by (auto simp: app_inv_def initFailed_def)
next
  case Retry
  with assms show ?thesis by (auto simp: app_inv_def retry_def)
next
  case (Frame f)
  then show ?thesis by simp
next
  case (BgLoaded t)
  then show ?thesis by simp
qed

lemma reachable_run_ticks: "reachable s \<Longrightarrow> reachable (run_ticks rs s)"
proof (induction rs arbitrary: s)
  case Nil
  then show ?case by simp
next
  case (Cons r rs)
  from Cons.prems have "reachable (step (Results r) s)"
    by (rule reachable_step) simp
  then show ?case using Cons.IH by simp
qed

lemma reachable_error_app: "reachable error_app"
  unfolding error_app_def
  by (intro reachable_step reachable_init) (simp_all add: initial_app_def)

lemma reachable_active_app: "reachable active_app"
  unfolding active_app_def
  by (intro reachable_step reachable_run_ticks reachable_init) (simp_all add: initial_app_def)

lemma error_app_eq:
  "error_app = initial_app\<lparr>appState := ERROR, statusMessage := MsgCameraFailed,
     stateRef := ERROR, initPending := 0\<rparr>"
  by (simp add: error_app_def initFailed_def render_def captureBackground_def
      initial_app_def Let_def)

lemma waiting_app_eq:
  "step (Render (Some camera) True) (step InitResolved initial_app) = waiting_app"
  by (simp add: waiting_app_def initialized_def render_def captureBackground_def
      initial_app_def Let_def)

lemma active_app_plate:
  "appState active_app = ACTIVE"
  "backgroundDataUrl active_app
     = Some \<lparr>cv_width = 1280, cv_height = 720, cv_content = Some 0\<rparr>"
proof -
  let ?s = "run_ticks (replicate 31 nobody) waiting_app"
  have s: "stateRef ?s = WAITING_FOR_CLEAR_VIEW" "appState ?s = CAPTURING_BACKGROUND"
    using run_ticks_nobody[OF waiting_app_simps(1) all_absent_nobody, of 31]
    by (simp_all add: waiting_app_simps)
  have eq: "active_app = render (Some camera) True ?s"
    unfolding active_app_def waiting_app_eq by simp
  show "appState active_app = ACTIVE"
    unfolding eq using s by (simp add: render_def captureBackground_def Let_def)
  show "backgroundDataUrl active_app
     = Some \<lparr>cv_width = 1280, cv_height = 720, cv_content = Some 0\<rparr>"
    unfolding eq using s by (simp add: render_def captureBackground_def Let_def camera_def)
qed

lemma capturing_app_simps:
  "appState capturing_app = CAPTURING_BACKGROUND"
  "stateRef capturing_app = WAITING_FOR_CLEAR_VIEW"
  "backgroundDataUrl capturing_app = None"
proof -
  show "appState capturing_app = CAPTURING_BACKGROUND"
    and "stateRef capturing_app = WAITING_FOR_CLEAR_VIEW"
    unfolding capturing_app_def
    using run_ticks_nobody[OF waiting_app_simps(1) all_absent_nobody, of 31]
    by (simp_all add: waiting_app_simps)
  have "reachable capturing_app"
    unfolding capturing_app_def waiting_app_eq[symmetric]
    by (intro reachable_step reachable_run_ticks reachable_init) (simp_all add: initial_app_def)
  then have "app_inv capturing_app" by (rule reachable_inv)
  with \<open>appState capturing_app = CAPTURING_BACKGROUND\<close>
  show "backgroundDataUrl capturing_app = None"
    by (auto simp: app_inv_def)
qed

lemma render_capture:
  assumes "appState s = CAPTURING_BACKGROUND" and "stateRef s \<noteq> CAPTURING_BACKGROUND"
  shows "appState (render (Some v) True s) = ACTIVE"
    and "backgroundDataUrl (render (Some v) True s) =
           Some \<lparr>cv_width = videoWidth v, cv_height = videoHeight v,
                 cv_content = Some (videoFrame v)\<rparr>"
  using assms by (simp_all add: render_def captureBackground_def Let_def)

lemma render_no_capture:
  assumes "appState s = CAPTURING_BACKGROUND"
    and "vid = None \<or> \<not> ctx \<or> stateRef s = CAPTURING_BACKGROUND"
  shows "appState (render vid ctx s) = CAPTURING_BACKGROUND"
    and "backgroundDataUrl (render vid ctx s) = backgroundDataUrl s"
  using assms by (auto simp: render_def captureBackground_def Let_def split: option.splits)

subsection \<open>Capturing the background\<close>

text \<open>
  C7, as the specification states it, fails: in CapturingBackground, with the video
  element reporting a frame of width 0 and height 0 and a 2D context available, the
  capture effect stores the snapshot of the 0 x 0 canvas as the background plate and the
  state becomes Active.
\<close>

theorem capture_zero_frame_counterexample:
  "appState capturing_app = CAPTURING_BACKGROUND
   \<and> videoWidth zero_video = 0 \<and> videoHeight zero_video = 0
   \<and> appState (render (Some zero_video) True capturing_app) = ACTIVE
   \<and> backgroundDataUrl (render (Some zero_video) True capturing_app)
        = Some \<lparr>cv_width = 0, cv_height = 0, cv_content = Some 0\<rparr>"
  using render_capture[of capturing_app zero_video]
  by (simp add: capturing_app_simps zero_video_def)

text \<open>
  C7, amended. The capture effect does not look at the frame's dimensions; what blocks
  the transition is the lack of a video element or of a 2D drawing context. In
  CapturingBackground, a render with no video element or no context leaves the state
  CapturingBackground and stores no plate, and so does every render after the one that
  committed CapturingBackground (the effect runs once per change of state). When the
  effect runs with a video element and a context, the plate is the snapshot of a canvas
  of the frame's width and height, whatever they are, and the state becomes Active.
\<close>

theorem capture_blocked_without_context:
  assumes "appState s = CAPTURING_BACKGROUND"
  shows "(vid = None \<or> \<not> ctx \<or> stateRef s = CAPTURING_BACKGROUND \<longrightarrow>
            appState (render vid ctx s) = CAPTURING_BACKGROUND
          \<and> backgroundDataUrl (render vid ctx s) = backgroundDataUrl s)
       \<and> (\<forall>v. vid = Some v \<and> ctx \<and> stateRef s \<noteq> CAPTURING_BACKGROUND \<longrightarrow>
            appState (render vid ctx s) = ACTIVE
          \<and> backgroundDataUrl (render vid ctx s) =
              Some \<lparr>cv_width = videoWidth v, cv_height = videoHeight v,
                    cv_content = Some (videoFrame v)\<rparr>)"
proof (intro conjI impI allI)
  assume "vid = None \<or> \<not> ctx \<or> stateRef s = CAPTURING_BACKGROUND"
  then show "appState (render vid ctx s) = CAPTURING_BACKGROUND"
    and "backgroundDataUrl (render vid ctx s) = backgroundDataUrl s"
    by (rule render_no_capture[OF assms])+
next
  fix v
  assume a: "vid = Some v \<and> ctx \<and> stateRef s \<noteq> CAPTURING_BACKGROUND"
  then have c: "ctx = True" and n: "stateRef s \<noteq> CAPTURING_BACKGROUND" and v: "vid = Some v"
    by simp_all
  show "appState (render vid ctx s) = ACTIVE"
    unfolding c v by (rule render_capture[OF assms n])
  show "backgroundDataUrl (render vid ctx s) =
          Some \<lparr>cv_width = videoWidth v, cv_height = videoHeight v,
                cv_content = Some (videoFrame v)\<rparr>"
    unfolding c v by (rule render_capture[OF assms n])
qed

theorem capture_blocked_without_context_witness:
  "appState capturing_app = CAPTURING_BACKGROUND
   \<and> appState (render (Some camera) False capturing_app) = CAPTURING_BACKGROUND
   \<and> backgroundDataUrl (render (Some camera) False capturing_app) = None
   \<and> stateRef capturing_app \<noteq> CAPTURING_BACKGROUND
   \<and> appState (render (Some camera) True capturing_app) = ACTIVE
   \<and> backgroundDataUrl (render (Some camera) True capturing_app)
        = Some \<lparr>cv_width = 1280, cv_height = 720, cv_content = Some 0\<rparr>"
  using capture_blocked_without_context[OF capturing_app_simps(1), of "Some camera" False]
    capture_blocked_without_context[OF capturing_app_simps(1), of "Some camera" True]
  by (simp add: capturing_app_simps camera_def)

subsection \<open>Background plate and restart\<close>

text \<open>
  C8. In every reachable state of the component the background plate is defined exactly
  when the state is Active; once defined it is not changed by any event; and whenever the
  retry action is available (the Error state has been rendered), it leads to Initializing
  with no background plate, the debounce counter at 0 and no compositor mounted, so that
  the reveal factor starts again from the 0 every mounted compositor starts with.
\<close>

theorem plate_iff_active:
  assumes "reachable s"
  shows "(backgroundDataUrl s \<noteq> None \<longleftrightarrow> appState s = ACTIVE)
       \<and> (\<forall>e. enabled e s \<and> backgroundDataUrl s \<noteq> None \<longrightarrow>
             backgroundDataUrl (step e s) = backgroundDataUrl s)
       \<and> (enabled Retry s \<longrightarrow>
             appState (step Retry s) = INITIALIZING
           \<and> backgroundDataUrl (step Retry s) = None
           \<and> noPersonTimerRef (step Retry s) = 0
           \<and> scene (step Retry s) = None
           \<and> (\<forall>vid. revealProgress (mountQuad vid) = 0))"
proof -
  from assms have inv: "app_inv s" by (rule reachable_inv)
  have a: "backgroundDataUrl s \<noteq> None \<longleftrightarrow> appState s = ACTIVE"
    using inv by (simp add: app_inv_def)
  have b: "backgroundDataUrl (step e s) = backgroundDataUrl s"
    if "enabled e s \<and> backgroundDataUrl s \<noteq> None" for e
    using that inv by (simp add: plate_kept)
  have c: "appState (step Retry s) = INITIALIZING
           \<and> backgroundDataUrl (step Retry s) = None
           \<and> noPersonTimerRef (step Retry s) = 0
           \<and> scene (step Retry s) = None
           \<and> (\<forall>vid. revealProgress (mountQuad vid) = 0)" if "enabled Retry s"
    using that inv by (auto simp: app_inv_def retry_def mountQuad_def)
  from a b c show ?thesis by blast
qed

theorem plate_iff_active_witness:
  "reachable active_app
   \<and> appState active_app = ACTIVE
   \<and> backgroundDataUrl active_app
        = Some \<lparr>cv_width = 1280, cv_height = 720, cv_content = Some 0\<rparr>
   \<and> backgroundDataUrl (step (Results somebody) active_app) = backgroundDataUrl active_app
   \<and> reachable error_app
   \<and> enabled Retry error_app
   \<and> appState (step Retry error_app) = INITIALIZING
   \<and> backgroundDataUrl (step Retry error_app) = None
   \<and> noPersonTimerRef (step Retry error_app) = 0
   \<and> scene (step Retry error_app) = None"
proof -
  have en: "enabled Retry error_app"
    by (simp add: error_app_eq)
  from plate_iff_active[OF reachable_active_app]
  have "enabled (Results somebody) active_app \<and> backgroundDataUrl active_app \<noteq> None
        \<longrightarrow> backgroundDataUrl (step (Results somebody) active_app)
              = backgroundDataUrl active_app"
    by blast
  then have k: "backgroundDataUrl (step (Results somebody) active_app)
              = backgroundDataUrl active_app"
    by (simp add: active_app_plate)
  from en k show ?thesis
    using plate_iff_active[OF reachable_error_app]
    by (simp add: active_app_plate reachable_active_app reachable_error_app)
qed

subsection \<open>Camera service: stopping\<close>

lemma stop_fields:
  "isStopped (stop s)"
  "phase (stop s) = phase s"
  "framesSent (stop s) = framesSent s"
  "requestAnimationId (stop s) = requestAnimationId s"
  "rafScheduled (stop s) = (rafScheduled s \<and> requestAnimationId s = None)"
  by (auto simp: stop_def Let_def split: option.splits)

lemma stop_idem: "stop (stop s) = stop s"
  by (cases "videoElement s"; cases "pose s")
     (auto simp: stop_def Let_def split: option.splits)

lemma stop_new_service: "stop new_service = new_service\<lparr>isStopped := True\<rparr>"
  by (simp add: stop_def new_service_def Let_def)

lemma processVideo_stopped: "isStopped s \<Longrightarrow> processVideo s = s\<lparr>rafScheduled := False\<rparr>"
  by (simp add: processVideo_def)

lemma step_stopped: "isStopped s \<Longrightarrow> isStopped (service_step e s)"
  by (cases e) (simp_all add: stop_fields streamArrived_def streamFailed_def
      metadataLoaded_def processVideo_stopped Let_def)

lemma run_stopped: "isStopped s \<Longrightarrow> isStopped (service_run es s)"
  by (induction es arbitrary: s) (simp_all add: step_stopped)

lemma run_Stop: "Stop \<in> set es \<Longrightarrow> isStopped (service_run es s)"
proof (induction es arbitrary: s)
  case Nil
  then show ?case by simp
next
  case (Cons e es)
  show ?case
  proof (cases "e = Stop")
    case True
    then show ?thesis by (simp add: run_stopped stop_fields)
  next
    case False
    with Cons show ?thesis by simp
  qed
qed

lemma step_pending_quiet:
  assumes "phase s = AwaitingStream \<longrightarrow> quiet s"
  shows "phase (service_step e s) = AwaitingStream \<longrightarrow> quiet (service_step e s)"
proof (cases e)
  case Stop
  with assms show ?thesis by (auto simp: quiet_def stop_fields)
next
  case (StreamArrives st)
  with assms show ?thesis by (auto simp: streamArrived_def)
next
  case StreamFails
  with assms show ?thesis by (auto simp: streamFailed_def)
next
  case MetadataLoaded
  with assms show ?thesis by (auto simp: metadataLoaded_def processVideo_def Let_def)
next
  case AnimationFrame
  with assms show ?thesis
    by (cases "phase s = AwaitingStream") (auto simp: quiet_def processVideo_def Let_def)
qed

lemma run_pending_quiet:
  "(phase s = AwaitingStream \<longrightarrow> quiet s) \<Longrightarrow>
   phase (service_run es s) = AwaitingStream \<longrightarrow> quiet (service_run es s)"
proof (induction es arbitrary: s)
  case Nil
  then show ?case by simp
next
  case (Cons e es)
  from Cons.IH[OF step_pending_quiet[OF Cons.prems]] show ?case by simp
qed

lemma step_stopped_quiet:
  assumes "isStopped s" and "quiet s"
  shows "quiet (service_step e s)"
proof (cases e)
  case Stop
  with assms show ?thesis by (auto simp: quiet_def stop_fields)
next
  case (StreamArrives st)
  with assms show ?thesis by (auto simp: quiet_def streamArrived_def)
next
  case StreamFails
  with assms show ?thesis by (auto simp: quiet_def streamFailed_def)
next
  case MetadataLoaded
  with assms show ?thesis by (auto simp: quiet_def metadataLoaded_def Let_def)
next
  case AnimationFrame
  with assms show ?thesis by (auto simp: quiet_def)
qed

lemma run_stopped_quiet: "isStopped s \<Longrightarrow> quiet s \<Longrightarrow> quiet (service_run es s)"
  by (induction es arbitrary: s) (simp_all add: step_stopped step_stopped_quiet)

lemma service_run_append: "service_run (es @ es') s = service_run es' (service_run es s)"
  by (induction es arbitrary: s) simp_all

lemma initialize_quiet: "quiet (initialize v new_service)"
  by (simp add: quiet_def initialize_def new_service_def)

text \<open>Without a stop the same two continuations start the frame loop.\<close>

lemma loop_starts_when_not_stopped:
  "framesSent (service_run [StreamArrives camera_stream, MetadataLoaded]
      (initialize idle_video new_service)) = 1
   \<and> rafScheduled (service_run [StreamArrives camera_stream, MetadataLoaded]
      (initialize idle_video new_service))
   \<and> \<not> quiet (service_run [StreamArrives camera_stream, MetadataLoaded]
      (initialize idle_video new_service))"
  by (simp add: initialize_def new_service_def streamArrived_def metadataLoaded_def
      processVideo_def idle_video_def quiet_def Let_def)

text \<open>
  C9. Take any run of the service after \<open>initialize\<close> was called in which \<open>stop()\<close>
  was requested at least once and the camera request is still pending. When the stream
  then arrives, every one of its tracks is stopped at once, and at no later point, whatever
  happens, has a frame been sent to the pose engine or an animation frame been requested
  or left scheduled: the frame loop never starts. Moreover \<open>stop()\<close> is idempotent, and
  on a service on which \<open>initialize\<close> was never called it only sets the stopped flag.
\<close>

theorem stop_while_pending:
  assumes "Stop \<in> set es"
    and "phase (service_run es (initialize v new_service)) = AwaitingStream"
  shows "snd (streamArrived st (service_run es (initialize v new_service))) = stop_tracks st
       \<and> list_all (\<lambda>t. t = Ended)
            (tracks (snd (streamArrived st (service_run es (initialize v new_service)))))
       \<and> (\<forall>es'. quiet (service_run (es @ StreamArrives st # es') (initialize v new_service)))
       \<and> (\<forall>s. stop (stop s) = stop s)
       \<and> stop new_service = new_service\<lparr>isStopped := True\<rparr>"
proof -
  let ?s = "service_run es (initialize v new_service)"
  have stopped: "isStopped ?s" using assms(1) by (rule run_Stop)
  have q: "quiet ?s"
    using run_pending_quiet[of "initialize v new_service" es] assms(2)
    by (simp add: initialize_quiet)
  have a: "snd (streamArrived st ?s) = stop_tracks st"
    using stopped by (simp add: streamArrived_def)
  have b: "list_all (\<lambda>t. t = Ended) (tracks (snd (streamArrived st ?s)))"
    unfolding a by (simp add: stop_tracks_def list_all_iff)
  have c: "quiet (service_run (es @ StreamArrives st # es') (initialize v new_service))" for es'
  proof -
    have s': "service_step (StreamArrives st) ?s = ?s\<lparr>phase := Returned\<rparr>"
      using stopped assms(2) by (simp add: streamArrived_def)
    have "isStopped (?s\<lparr>phase := Returned\<rparr>)" "quiet (?s\<lparr>phase := Returned\<rparr>)"
      using stopped q by (simp_all add: quiet_def)
    then have "quiet (service_run es' (?s\<lparr>phase := Returned\<rparr>))"
      by (rule run_stopped_quiet)
    moreover have "service_run (es @ StreamArrives st # es') (initialize v new_service)
        = service_run es' (service_step (StreamArrives st) ?s)"
      by (simp add: service_run_append del: service_step.simps)
    ultimately show ?thesis by (simp only: s')
  qed
  from a b c show ?thesis by (simp add: stop_idem stop_new_service)
qed

theorem stop_while_pending_witness:
  "Stop \<in> set [Stop, Stop]
   \<and> phase (service_run [Stop, Stop] (initialize idle_video new_service)) = AwaitingStream
   \<and> snd (streamArrived camera_stream (service_run [Stop, Stop] (initialize idle_video new_service)))
       = \<lparr>tracks = [Ended, Ended]\<rparr>
   \<and> quiet (service_run ([Stop, Stop] @ StreamArrives camera_stream # [MetadataLoaded, AnimationFrame])
        (initialize idle_video new_service))
   \<and> stop (stop (initialize idle_video new_service)) = stop (initialize idle_video new_service)"
proof -
  have p: "phase (service_run [Stop, Stop] (initialize idle_video new_service)) = AwaitingStream"
    by (simp add: stop_fields initialize_def)
  have m: "Stop \<in> set [Stop, Stop]" by simp
  from stop_while_pending[OF m p, of camera_stream] p m show ?thesis
    by (simp add: stop_tracks_def camera_stream_def del: service_run.simps append.simps)
qed

subsection \<open>Mask ingestion\<close>

lemma useFrame_skip:
  assumes "\<not> ready q \<or> fr_videoElement f = None"
  shows "useFrame f q = q"
  using assms by (auto simp: useFrame_def ready_def split: option.splits)

lemma ingestMask_other:
  "revealProgress (ingestMask v m c q) = revealProgress q"
  "materialRef (ingestMask v m c q) = materialRef q"
  "bgTexture (ingestMask v m c q) = bgTexture q"
  "videoTextureRef (ingestMask v m c q) = videoTextureRef q"
  by (simp_all add: ingestMask_def Let_def)

lemma updateMask_other:
  "revealProgress (updateMask f v q) = revealProgress q"
  "materialRef (updateMask f v q) = materialRef q"
  "bgTexture (updateMask f v q) = bgTexture q"
  "videoTextureRef (updateMask f v q) = videoTextureRef q"
  by (simp_all add: updateMask_def ingestMask_other split: option.splits)

lemma updateMask_mask:
  "maskCanvasRef (updateMask f v (q\<lparr>videoTextureRef := x\<rparr>)) = maskCanvasRef (updateMask f v q)"
  "maskTextureRef (updateMask f v (q\<lparr>videoTextureRef := x\<rparr>)) = maskTextureRef (updateMask f v q)"
  by (simp_all add: updateMask_def ingestMask_def Let_def split: option.splits)

lemma useFrame_fields:
  assumes "ready q" and "fr_videoElement f = Some v"
  shows "revealProgress (useFrame f q) =
           lerp (revealProgress q) (if fr_isTouchingHead f then 1 else 0) (js_mul (fr_delta f) 3)"
    and "maskCanvasRef (useFrame f q) = maskCanvasRef (updateMask f v q)"
    and "maskTextureRef (useFrame f q) = maskTextureRef (updateMask f v q)"
    and "maskUniform (useFrame f q) =
           (if maskTextureRef (updateMask f v q) = None then maskUniform q else Some MaskTex)"
    and "ready (useFrame f q)"
proof -
  from assms(1) obtain u bg where u: "materialRef q = Some u" and bg: "bgTexture q = Some bg"
    by (auto simp: ready_def)
  show "revealProgress (useFrame f q) =
           lerp (revealProgress q) (if fr_isTouchingHead f then 1 else 0) (js_mul (fr_delta f) 3)"
    using u bg assms(2) by (simp add: useFrame_def Let_def updateMask_other)
  show "maskCanvasRef (useFrame f q) = maskCanvasRef (updateMask f v q)"
    using u bg assms(2) by (simp add: useFrame_def Let_def updateMask_mask)
  show "maskTextureRef (useFrame f q) = maskTextureRef (updateMask f v q)"
    using u bg assms(2) by (simp add: useFrame_def Let_def updateMask_mask)
  show "maskUniform (useFrame f q) =
           (if maskTextureRef (updateMask f v q) = None then maskUniform q else Some MaskTex)"
    using u bg assms(2) by (simp add: useFrame_def Let_def updateMask_mask maskUniform_def)
  show "ready (useFrame f q)"
    using u bg assms(2) by (simp add: useFrame_def Let_def updateMask_other ready_def)
qed

lemma updateMask_no_mask:
  assumes "fr_latestResults f = None \<or> (\<exists>r. fr_latestResults f = Some r \<and> segmentationMask r = None)"
  shows "updateMask f v q = q"
  using assms by (auto simp: updateMask_def)

lemma updateMask_resized:
  assumes "cv_width (maskCanvasRef (updateMask f v q)) \<noteq> cv_width (maskCanvasRef q)
         \<or> cv_height (maskCanvasRef (updateMask f v q)) \<noteq> cv_height (maskCanvasRef q)"
  shows "\<exists>r m. fr_latestResults f = Some r \<and> segmentationMask r = Some m
       \<and> (cv_width (maskCanvasRef q) \<noteq> videoWidth v \<or> cv_height (maskCanvasRef q) \<noteq> videoHeight v)
       \<and> cv_width (maskCanvasRef (updateMask f v q)) = videoWidth v
       \<and> cv_height (maskCanvasRef (updateMask f v q)) = videoHeight v
       \<and> (if fr_ctx2d f
           then cv_content (maskCanvasRef (updateMask f v q)) = Some m
              \<and> maskTextureRef (updateMask f v q) =
                  Some (case maskTextureRef q of None \<Rightarrow> 1 | Some n \<Rightarrow> Suc n)
           else cv_content (maskCanvasRef (updateMask f v q)) = None
              \<and> maskTextureRef (updateMask f v q) = maskTextureRef q)"
proof (cases "fr_latestResults f")
  case None
  with assms show ?thesis by (simp add: updateMask_def)
next
  case (Some r)
  show ?thesis
  proof (cases "segmentationMask r")
    case None
    with Some assms show ?thesis by (simp add: updateMask_def)
  next
    case (Some m)
    with \<open>fr_latestResults f = Some r\<close> have u: "updateMask f v q = ingestMask v m (fr_ctx2d f) q"
      by (simp add: updateMask_def)
    from assms show ?thesis
      unfolding u using Some \<open>fr_latestResults f = Some r\<close>
      by (cases "fr_ctx2d f") (auto simp: ingestMask_def Let_def split: if_splits option.splits)
  qed
qed

text \<open>
  C10. On a render tick on which the latest inference result is absent or carries no
  segmentation mask, the compositor leaves the mask canvas (its size and what is drawn on
  it) and the mask texture (no new version) as they are, and the mask uniform refers to
  the mask texture whenever there is one: the shader keeps sampling the mask ingested
  last. The mask canvas changes size only on a tick that passes the guard of the
  callback, whose latest result carries a mask, and on which the canvas's size differs
  from the video's native size; it then has that size, and the mask is drawn on it and
  the texture gets a new version when the 2D context is available.
\<close>

theorem mask_kept_without_result:
  "(fr_latestResults f = None \<or> (\<exists>r. fr_latestResults f = Some r \<and> segmentationMask r = None)
      \<longrightarrow> maskCanvasRef (useFrame f q) = maskCanvasRef q
        \<and> maskTextureRef (useFrame f q) = maskTextureRef q
        \<and> maskUniform (useFrame f q) =
            (if ready q \<and> fr_videoElement f \<noteq> None \<and> maskTextureRef q \<noteq> None
             then Some MaskTex else maskUniform q))
   \<and> (cv_width (maskCanvasRef (useFrame f q)) \<noteq> cv_width (maskCanvasRef q)
        \<or> cv_height (maskCanvasRef (useFrame f q)) \<noteq> cv_height (maskCanvasRef q)
      \<longrightarrow> ready q
        \<and> (\<exists>v r m. fr_videoElement f = Some v \<and> fr_latestResults f = Some r
              \<and> segmentationMask r = Some m
              \<and> (cv_width (maskCanvasRef q) \<noteq> videoWidth v
                   \<or> cv_height (maskCanvasRef q) \<noteq> videoHeight v)
              \<and> cv_width (maskCanvasRef (useFrame f q)) = videoWidth v
              \<and> cv_height (maskCanvasRef (useFrame f q)) = videoHeight v
              \<and> (if fr_ctx2d f
                  then cv_content (maskCanvasRef (useFrame f q)) = Some m
                     \<and> maskTextureRef (useFrame f q) =
                         Some (case maskTextureRef q of None \<Rightarrow> 1 | Some n \<Rightarrow> Suc n)
                  else cv_content (maskCanvasRef (useFrame f q)) = None
                     \<and> maskTextureRef (useFrame f q) = maskTextureRef q)))"
proof (cases "ready q \<and> fr_videoElement f \<noteq> None")
  case False
  then have "useFrame f q = q" by (simp add: useFrame_skip)
  with False show ?thesis by auto
next
  case True
  then obtain v where r: "ready q" and v: "fr_videoElement f = Some v" by auto
  note uf = useFrame_fields[OF r v]
  show ?thesis
  proof (intro conjI impI)
    assume n: "fr_latestResults f = None \<or> (\<exists>r. fr_latestResults f = Some r \<and> segmentationMask r = None)"
    show "maskCanvasRef (useFrame f q) = maskCanvasRef q"
      and "maskTextureRef (useFrame f q) = maskTextureRef q"
      and "maskUniform (useFrame f q) =
            (if ready q \<and> fr_videoElement f \<noteq> None \<and> maskTextureRef q \<noteq> None
             then Some MaskTex else maskUniform q)"
      using r v by (simp_all add: uf updateMask_no_mask[OF n])
  next
    assume "cv_width (maskCanvasRef (useFrame f q)) \<noteq> cv_width (maskCanvasRef q)
        \<or> cv_height (maskCanvasRef (useFrame f q)) \<noteq> cv_height (maskCanvasRef q)"
    then show "ready q" using r by simp
  next
    assume "cv_width (maskCanvasRef (useFrame f q)) \<noteq> cv_width (maskCanvasRef q)
        \<or> cv_height (maskCanvasRef (useFrame f q)) \<noteq> cv_height (maskCanvasRef q)"
    then have "cv_width (maskCanvasRef (updateMask f v q)) \<noteq> cv_width (maskCanvasRef q)
         \<or> cv_height (maskCanvasRef (updateMask f v q)) \<noteq> cv_height (maskCanvasRef q)"
      by (simp add: uf)
    from updateMask_resized[OF this] v
    show "\<exists>v r m. fr_videoElement f = Some v \<and> fr_latestResults f = Some r
              \<and> segmentationMask r = Some m
              \<and> (cv_width (maskCanvasRef q) \<noteq> videoWidth v
                   \<or> cv_height (maskCanvasRef q) \<noteq> videoHeight v)
              \<and> cv_width (maskCanvasRef (useFrame f q)) = videoWidth v
              \<and> cv_height (maskCanvasRef (useFrame f q)) = videoHeight v
              \<and> (if fr_ctx2d f
                  then cv_content (maskCanvasRef (useFrame f q)) = Some m
                     \<and> maskTextureRef (useFrame f q) =
                         Some (case maskTextureRef q of None \<Rightarrow> 1 | Some n \<Rightarrow> Suc n)
                  else cv_content (maskCanvasRef (useFrame f q)) = None
                     \<and> maskTextureRef (useFrame f q) = maskTextureRef q)"
      unfolding uf by blast
  qed
qed

lemma ready_quad_simps:
  "ready ready_quad"
  "revealProgress ready_quad = 0"
  "maskCanvasRef ready_quad = \<lparr>cv_width = 300, cv_height = 150, cv_content = None\<rparr>"
  "maskTextureRef ready_quad = None"
  by (simp_all add: ready_quad_def bgLoaded_def mountQuad_def ready_def)

lemma held_frame_simps:
  "fr_videoElement (held_frame d) = Some camera"
  "fr_latestResults (held_frame d) = None"
  "fr_delta (held_frame d) = d"
  "fr_isTouchingHead (held_frame d)"
  by (simp_all add: held_frame_def)

lemma mask_frame_simps:
  "fr_videoElement (mask_frame r) = Some camera"
  "fr_latestResults (mask_frame r) = Some r"
  "fr_ctx2d (mask_frame r)"
  by (simp_all add: mask_frame_def held_frame_def)

lemma masked_quad_simps:
  "ready masked_quad"
  "maskCanvasRef masked_quad = \<lparr>cv_width = 1280, cv_height = 720, cv_content = Some 0\<rparr>"
  "maskTextureRef masked_quad = Some 1"
proof -
  note uf = useFrame_fields[OF ready_quad_simps(1) mask_frame_simps(1), of somebody]
  show "ready masked_quad" unfolding masked_quad_def by (rule uf)
  have u: "updateMask (mask_frame somebody) camera ready_quad
             = ingestMask camera 0 True ready_quad"
    by (simp add: updateMask_def mask_frame_simps somebody_def)
  show "maskCanvasRef masked_quad = \<lparr>cv_width = 1280, cv_height = 720, cv_content = Some 0\<rparr>"
    unfolding masked_quad_def uf u
    by (simp add: ingestMask_def Let_def ready_quad_simps camera_def)
  show "maskTextureRef masked_quad = Some 1"
    unfolding masked_quad_def uf u
    by (simp add: ingestMask_def Let_def ready_quad_simps camera_def)
qed

theorem mask_kept_without_result_witness:
  "fr_latestResults (held_frame (1/60)) = None
   \<and> maskCanvasRef (useFrame (held_frame (1/60)) masked_quad)
       = \<lparr>cv_width = 1280, cv_height = 720, cv_content = Some 0\<rparr>
   \<and> maskTextureRef (useFrame (held_frame (1/60)) masked_quad) = Some 1
   \<and> maskUniform (useFrame (held_frame (1/60)) masked_quad) = Some MaskTex
   \<and> cv_width (maskCanvasRef (useFrame (mask_frame somebody) ready_quad))
       \<noteq> cv_width (maskCanvasRef ready_quad)
   \<and> (\<exists>v r m. fr_videoElement (mask_frame somebody) = Some v
         \<and> fr_latestResults (mask_frame somebody) = Some r
         \<and> segmentationMask r = Some m
         \<and> cv_width (maskCanvasRef ready_quad) \<noteq> videoWidth v
         \<and> cv_width (maskCanvasRef (useFrame (mask_frame somebody) ready_quad)) = videoWidth v
         \<and> cv_content (maskCanvasRef (useFrame (mask_frame somebody) ready_quad)) = Some m)"
proof -
  have w: "cv_width (maskCanvasRef (useFrame (mask_frame somebody) ready_quad))
       \<noteq> cv_width (maskCanvasRef ready_quad)"
    using masked_quad_simps(2) by (simp add: masked_quad_def ready_quad_simps)
  from mask_kept_without_result[of "mask_frame somebody" ready_quad] w
  have "\<exists>v r m. fr_videoElement (mask_frame somebody) = Some v
         \<and> fr_latestResults (mask_frame somebody) = Some r
         \<and> segmentationMask r = Some m
         \<and> cv_width (maskCanvasRef (useFrame (mask_frame somebody) ready_quad)) = videoWidth v
         \<and> cv_content (maskCanvasRef (useFrame (mask_frame somebody) ready_quad)) = Some m"
    by (auto simp: mask_frame_simps)
  then have e: "\<exists>v r m. fr_videoElement (mask_frame somebody) = Some v
         \<and> fr_latestResults (mask_frame somebody) = Some r
         \<and> segmentationMask r = Some m
         \<and> cv_width (maskCanvasRef ready_quad) \<noteq> videoWidth v
         \<and> cv_width (maskCanvasRef (useFrame (mask_frame somebody) ready_quad)) = videoWidth v
         \<and> cv_content (maskCanvasRef (useFrame (mask_frame somebody) ready_quad)) = Some m"
    by (auto simp: mask_frame_simps ready_quad_simps camera_def)
  from mask_kept_without_result[of "held_frame (1/60)" masked_quad]
  have k: "maskCanvasRef (useFrame (held_frame (1/60)) masked_quad)
       = \<lparr>cv_width = 1280, cv_height = 720, cv_content = Some 0\<rparr>
   \<and> maskTextureRef (useFrame (held_frame (1/60)) masked_quad) = Some 1
   \<and> maskUniform (useFrame (held_frame (1/60)) masked_quad) = Some MaskTex"
    by (simp add: held_frame_simps masked_quad_simps)
  from w e k show ?thesis by (simp add: held_frame_simps)
qed

subsection \<open>Reveal easing\<close>

lemma round64_above_one: "round64 (1 + 1 / 2 ^ 54) = 1"
proof -
  have "round64 (1 + 1 / 2 ^ 54) = of_int (rne ((1 + 1 / 2 ^ 54) * 2 ^ (0 + 52))) / 2 ^ (0 + 52)"
    by (rule round64_eval_small) simp_all
  also have "rne ((1 + 1 / 2 ^ 54) * 2 ^ (0 + 52)) = 4503599627370496"
    by (simp add: rne_def Let_def)
  finally show ?thesis by simp
qed

lemma round64_unit:
  assumes "0 \<le> x" and "x \<le> 1"
  shows "0 \<le> round64 x" and "round64 x \<le> 1"
proof -
  show "0 \<le> round64 x" using assms(1) by (rule round64_nonneg)
  have "round64 x \<le> round64 1" using assms by (rule round64_mono)
  then show "round64 x \<le> 1" by (simp add: round64_dyadic)
qed

lemma lerp_to_one:
  assumes "0 \<le> x" and "x \<le> 1" and "0 \<le> dt" and "dt * 3 \<le> 1"
  shows "0 \<le> lerp x 1 (js_mul dt 3)"
    and "lerp x 1 (js_mul dt 3) \<le> 1"
    and "\<bar>lerp x 1 (js_mul dt 3) - (x + 3 * dt * (1 - x))\<bar> \<le> 1 / 2 ^ 52"
proof -
  define t where "t = round64 (dt * 3)"
  define a where "a = round64 (1 - t)"
  define b where "b = round64 (a * x)"
  have l: "lerp x 1 (js_mul dt 3) = round64 (b + t)"
    by (simp add: lerp_def js_add_def js_mul_def js_sub_def t_def a_def b_def round64_idem)
  have d3: "0 \<le> dt * 3" using assms(3) by simp
  have t: "0 \<le> t" "t \<le> 1" unfolding t_def by (rule round64_unit[OF d3 assms(4)])+
  have te: "\<bar>t - dt * 3\<bar> \<le> 1 / 2 ^ 54"
    unfolding t_def by (rule round64_err_unit[OF d3 assms(4)])
  have t1: "0 \<le> 1 - t" "1 - t \<le> 1" using t by simp_all
  have a: "0 \<le> a" "a \<le> 1" unfolding a_def by (rule round64_unit[OF t1])+
  have ae: "\<bar>a - (1 - t)\<bar> \<le> 1 / 2 ^ 54"
    unfolding a_def by (rule round64_err_unit[OF t1])
  have ax: "0 \<le> a * x" "a * x \<le> a" "a * x \<le> 1"
    using a assms(1,2) by (simp_all add: mult_left_le mult_le_one)
  have b0: "0 \<le> b" unfolding b_def by (rule round64_nonneg[OF ax(1)])
  have "b \<le> round64 a" unfolding b_def by (rule round64_mono[OF ax(1,2)])
  then have ba: "b \<le> a" by (simp add: a_def round64_idem)
  have be: "\<bar>b - a * x\<bar> \<le> 1 / 2 ^ 54"
    unfolding b_def by (rule round64_err_unit[OF ax(1,3)])
  have s0: "0 \<le> b + t" using b0 t by simp
  from ae have "a - (1 - t) \<le> 1 / 2 ^ 54" by (rule abs_le_D1)
  with ba have s1: "b + t \<le> 1 + 1 / 2 ^ 54" by linarith
  have s2: "b + t < 2" using s1 by simp
  show "0 \<le> lerp x 1 (js_mul dt 3)" unfolding l by (rule round64_nonneg[OF s0])
  have "round64 (b + t) \<le> round64 (1 + 1 / 2 ^ 54)" by (rule round64_mono[OF s0 s1])
  then show "lerp x 1 (js_mul dt 3) \<le> 1" unfolding l by (simp only: round64_above_one)
  have re: "\<bar>round64 (b + t) - (b + t)\<bar> \<le> 1 / 2 ^ 53" by (rule round64_err_two[OF s0 s2])
  have "\<bar>(a - (1 - t)) * x\<bar> = \<bar>a - (1 - t)\<bar> * x"
    using assms(1) by (simp only: abs_mult abs_of_nonneg)
  also have "\<dots> \<le> (1 / 2 ^ 54) * x" using ae assms(1) by (rule mult_right_mono)
  finally have x1: "\<bar>(a - (1 - t)) * x\<bar> \<le> (1 / 2 ^ 54) * x" .
  have nx: "0 \<le> 1 - x" using assms(2) by simp
  have "\<bar>(t - dt * 3) * (1 - x)\<bar> = \<bar>t - dt * 3\<bar> * (1 - x)"
    using nx by (simp only: abs_mult abs_of_nonneg)
  also have "\<dots> \<le> (1 / 2 ^ 54) * (1 - x)" using te nx by (rule mult_right_mono)
  finally have x2: "\<bar>(t - dt * 3) * (1 - x)\<bar> \<le> (1 / 2 ^ 54) * (1 - x)" .
  have split: "round64 (b + t) - (x + 3 * dt * (1 - x))
      = (round64 (b + t) - (b + t)) + (b - a * x) + (a - (1 - t)) * x + (t - dt * 3) * (1 - x)"
    by (simp add: algebra_simps)
  have "\<bar>round64 (b + t) - (x + 3 * dt * (1 - x))\<bar>
      \<le> 1 / 2 ^ 53 + 1 / 2 ^ 54 + (1 / 2 ^ 54) * x + (1 / 2 ^ 54) * (1 - x)"
    unfolding split using re be x1 x2 by linarith
  also have "\<dots> = 1 / 2 ^ 52" by (simp add: field_simps)
  finally show "\<bar>lerp x 1 (js_mul dt 3) - (x + 3 * dt * (1 - x))\<bar> \<le> 1 / 2 ^ 52"
    unfolding l .
qed

lemma reveal_step:
  assumes "ready q" and "held f" and "0 \<le> revealProgress q" and "revealProgress q \<le> 1"
  shows "ready (useFrame f q)"
    and "0 \<le> revealProgress (useFrame f q)"
    and "revealProgress (useFrame f q) \<le> 1"
    and "\<bar>revealProgress (useFrame f q)
           - (revealProgress q + 3 * fr_delta f * (1 - revealProgress q))\<bar> \<le> 1 / 2 ^ 52"
proof -
  from assms(2) obtain v where v: "fr_videoElement f = Some v" and t: "fr_isTouchingHead f"
    and d: "0 \<le> fr_delta f" "fr_delta f * 3 \<le> 1"
    by (auto simp: held_def)
  have r: "revealProgress (useFrame f q) = lerp (revealProgress q) 1 (js_mul (fr_delta f) 3)"
    using useFrame_fields(1)[OF assms(1) v] t by simp
  show "ready (useFrame f q)" by (rule useFrame_fields(5)[OF assms(1) v])
  show "0 \<le> revealProgress (useFrame f q)"
    unfolding r by (rule lerp_to_one[OF assms(3,4) d])
  show "revealProgress (useFrame f q) \<le> 1"
    unfolding r by (rule lerp_to_one[OF assms(3,4) d])
  show "\<bar>revealProgress (useFrame f q)
           - (revealProgress q + 3 * fr_delta f * (1 - revealProgress q))\<bar> \<le> 1 / 2 ^ 52"
    unfolding r by (rule lerp_to_one[OF assms(3,4) d])
qed

lemma run_frames_snoc: "run_frames (fs @ [f]) q = useFrame f (run_frames fs q)"
  by (induction fs arbitrary: q) simp_all

lemma run_frames_unit:
  assumes "ready q" and "0 \<le> revealProgress q" and "revealProgress q \<le> 1"
    and "list_all held fs"
  shows "ready (run_frames fs q) \<and> 0 \<le> revealProgress (run_frames fs q)
       \<and> revealProgress (run_frames fs q) \<le> 1"
  using assms
proof (induction fs arbitrary: q)
  case Nil
  then show ?case by simp
next
  case (Cons f fs)
  from Cons.prems have h: "held f" and hs: "list_all held fs" by simp_all
  note st = reveal_step[OF Cons.prems(1) h Cons.prems(2,3)]
  from Cons.IH[OF st(1,2,3) hs] show ?case by simp
qed

lemma run_frames_approach:
  assumes "ready q" and "0 \<le> revealProgress q" and "revealProgress q \<le> 1"
    and "list_all held fs" and "0 < d" and "list_all (\<lambda>f. d \<le> fr_delta f) fs"
  shows "1 - revealProgress (run_frames fs q) - 1 / (2 ^ 52 * 3 * d)
       \<le> (1 - 3 * d) ^ length fs * (1 - revealProgress q - 1 / (2 ^ 52 * 3 * d))"
  using assms(1,2,3,4,6)
proof (induction fs arbitrary: q)
  case Nil
  then show ?case by simp
next
  case (Cons f fs)
  from Cons.prems have h: "held f" and hs: "list_all held fs"
    and df: "d \<le> fr_delta f" and ds: "list_all (\<lambda>f. d \<le> fr_delta f) fs" by simp_all
  note st = reveal_step[OF Cons.prems(1) h Cons.prems(2,3)]
  define B where "B = 1 / (2 ^ 52 * 3 * d)"
  define u0 where "u0 = 1 - revealProgress q"
  define u1 where "u1 = 1 - revealProgress (useFrame f q)"
  from h have f3: "fr_delta f \<le> 1/3" by (simp add: held_def)
  have d3: "0 \<le> 1 - 3 * d" using df f3 by simp
  have u0: "0 \<le> u0" using Cons.prems(3) by (simp add: u0_def)
  have "- (revealProgress (useFrame f q)
           - (revealProgress q + 3 * fr_delta f * (1 - revealProgress q))) \<le> 1 / 2 ^ 52"
    using st(4) by (rule abs_le_D2)
  moreover have "u1 - (1 - 3 * fr_delta f) * u0
      = - (revealProgress (useFrame f q)
           - (revealProgress q + 3 * fr_delta f * (1 - revealProgress q)))"
    by (simp add: u1_def u0_def algebra_simps)
  ultimately have "u1 \<le> (1 - 3 * fr_delta f) * u0 + 1 / 2 ^ 52" by linarith
  also have "(1 - 3 * fr_delta f) * u0 \<le> (1 - 3 * d) * u0"
    using df u0 by (intro mult_right_mono) simp_all
  finally have "u1 \<le> (1 - 3 * d) * u0 + 1 / 2 ^ 52" by simp
  moreover have "(1 - 3 * d) * B = B - 1 / 2 ^ 52"
    using assms(5) by (simp add: B_def field_simps)
  ultimately have one: "u1 - B \<le> (1 - 3 * d) * (u0 - B)"
    by (simp add: algebra_simps)
  have "1 - revealProgress (run_frames fs (useFrame f q)) - B
        \<le> (1 - 3 * d) ^ length fs * (u1 - B)"
    using Cons.IH[OF st(1,2,3) hs ds] by (simp add: B_def u1_def)
  also have "\<dots> \<le> (1 - 3 * d) ^ length fs * ((1 - 3 * d) * (u0 - B))"
    using one d3 by (intro mult_left_mono) simp_all
  finally show ?case by (simp add: B_def u0_def algebra_simps)
qed

lemma decay_unit:
  assumes "list_all held fs"
  shows "0 \<le> prod_list (map (\<lambda>f. 1 - 3 * fr_delta f) fs)"
    and "prod_list (map (\<lambda>f. 1 - 3 * fr_delta f) fs) \<le> 1"
  using assms
proof (induction fs)
  case Nil
  {
    case 1
    show ?case by simp
  next
    case 2
    show ?case by simp
  }
next
  case (Cons f fs)
  {
    case 1
    then have "0 \<le> 1 - 3 * fr_delta f" and "0 \<le> prod_list (map (\<lambda>f. 1 - 3 * fr_delta f) fs)"
      using Cons.IH(1) by (simp_all add: held_def)
    then show ?case by simp
  next
    case 2
    then have "0 \<le> 1 - 3 * fr_delta f" "1 - 3 * fr_delta f \<le> 1"
      and "0 \<le> prod_list (map (\<lambda>f. 1 - 3 * fr_delta f) fs)"
      and "prod_list (map (\<lambda>f. 1 - 3 * fr_delta f) fs) \<le> 1"
      using Cons.IH by (simp_all add: held_def)
    then show ?case by (simp add: mult_le_one)
  }
qed

lemma run_frames_decay:
  assumes "ready q" and "0 \<le> revealProgress q" and "revealProgress q \<le> 1"
    and "list_all held fs"
  shows "1 - revealProgress (run_frames fs q)
       \<le> prod_list (map (\<lambda>f. 1 - 3 * fr_delta f) fs) * (1 - revealProgress q)
           + real (length fs) / 2 ^ 52"
  using assms
proof (induction fs arbitrary: q)
  case Nil
  then show ?case by simp
next
  case (Cons f fs)
  from Cons.prems have h: "held f" and hs: "list_all held fs" by simp_all
  note st = reveal_step[OF Cons.prems(1) h Cons.prems(2,3)]
  define P where "P = prod_list (map (\<lambda>f. 1 - 3 * fr_delta f) fs)"
  define u0 where "u0 = 1 - revealProgress q"
  define u1 where "u1 = 1 - revealProgress (useFrame f q)"
  have P: "0 \<le> P" "P \<le> 1" unfolding P_def by (rule decay_unit[OF hs])+
  have "- (revealProgress (useFrame f q)
           - (revealProgress q + 3 * fr_delta f * (1 - revealProgress q))) \<le> 1 / 2 ^ 52"
    using st(4) by (rule abs_le_D2)
  moreover have "u1 - (1 - 3 * fr_delta f) * u0
      = - (revealProgress (useFrame f q)
           - (revealProgress q + 3 * fr_delta f * (1 - revealProgress q)))"
    by (simp add: u1_def u0_def algebra_simps)
  ultimately have one: "u1 \<le> (1 - 3 * fr_delta f) * u0 + 1 / 2 ^ 52" by linarith
  have "P * u1 \<le> P * ((1 - 3 * fr_delta f) * u0 + 1 / 2 ^ 52)"
    using one P(1) by (rule mult_left_mono)
  also have "\<dots> = P * (1 - 3 * fr_delta f) * u0 + P * (1 / 2 ^ 52)"
    by (simp add: algebra_simps)
  also have "P * (1 / 2 ^ 52) \<le> 1 * (1 / 2 ^ 52)"
    using P(2) by (rule mult_right_mono) simp
  finally have two: "P * u1 \<le> P * (1 - 3 * fr_delta f) * u0 + 1 / 2 ^ 52" by simp
  have "1 - revealProgress (run_frames fs (useFrame f q)) \<le> P * u1 + real (length fs) / 2 ^ 52"
    using Cons.IH[OF st(1,2,3) hs] by (simp add: P_def u1_def)
  also have "\<dots> \<le> P * (1 - 3 * fr_delta f) * u0 + 1 / 2 ^ 52 + real (length fs) / 2 ^ 52"
    using two by simp
  also have "\<dots> = (1 - 3 * fr_delta f) * P * u0 + real (length (f # fs)) / 2 ^ 52"
    by (simp add: field_simps)
  finally show ?case by (simp add: P_def u0_def)
qed

lemma round64_one_minus:
  assumes "m \<le> 53"
  shows "round64 (1 - 1 / 2 ^ m) = 1 - 1 / 2 ^ m"
proof -
  have "(2::int) ^ m \<le> 2 ^ 53" using assms by (intro power_increasing) simp_all
  then have k: "\<bar>(2::int) ^ m - 1\<bar> < 2 ^ 53" by simp
  have "(of_int (2 ^ m - 1) :: real) / 2 ^ m = 1 - 1 / 2 ^ m" by (simp add: field_simps)
  then show ?thesis using round64_exact_div[OF k, of m] assms by simp
qed

lemma round64_quarter_of:
  assumes "m \<le> 52"
  shows "round64 (1 / 4 * (1 - 1 / 2 ^ m)) = 1 / 4 - 1 / 2 ^ (m + 2)"
proof -
  have "(2::int) ^ m \<le> 2 ^ 52" using assms by (intro power_increasing) simp_all
  then have k: "\<bar>(2::int) ^ m - 1\<bar> < 2 ^ 53" by simp
  have e: "(of_int (2 ^ m - 1) :: real) / 2 ^ (m + 2) = 1 / 4 - 1 / 2 ^ (m + 2)"
    by (simp add: field_simps)
  have l: "1 / 4 * (1 - 1 / 2 ^ m) = (of_int (2 ^ m - 1) :: real) / 2 ^ (m + 2)"
    by (simp add: field_simps)
  have "round64 (of_int (2 ^ m - 1) / 2 ^ (m + 2)) = of_int (2 ^ m - 1) / 2 ^ (m + 2)"
    using k by (rule round64_exact_div) (use assms in simp)
  then show ?thesis unfolding l unfolding e .
qed

lemma lerp_quarter_form:
  "lerp x 1 (js_mul (1/4) 3) = round64 (round64 (1 / 4 * x) + 3 / 4)"
  by (simp add: lerp_def js_add_def js_mul_def js_sub_def round64_dyadic)

lemma lerp_quarter:
  assumes "m \<le> 51"
  shows "lerp (1 - 1 / 2 ^ m) 1 (js_mul (1/4) 3) = 1 - 1 / 2 ^ (m + 2)"
proof -
  have q: "round64 (1 / 4 * (1 - 1 / 2 ^ m)) = 1 / 4 - 1 / 2 ^ (m + 2)"
    using assms by (intro round64_quarter_of) simp
  have "round64 (1 / 4 - 1 / 2 ^ (m + 2) + 3 / 4) = round64 (1 - 1 / 2 ^ (m + 2))"
    by simp
  also have "\<dots> = 1 - 1 / 2 ^ (m + 2)" using assms by (intro round64_one_minus) simp
  finally show ?thesis unfolding lerp_quarter_form q .
qed

lemma lerp_quarter_tie: "lerp (1 - 1 / 2 ^ 52) 1 (js_mul (1/4) 3) = 1"
proof -
  have q: "round64 (1 / 4 * (1 - 1 / 2 ^ 52)) = 1 / 4 - 1 / 2 ^ (52 + 2)"
    by (intro round64_quarter_of) simp
  have "round64 (1 / 4 - 1 / 2 ^ (52 + 2) + 3 / 4) = round64 (1 - 1 / 2 ^ 54)"
    by simp
  also have "\<dots> = 1" by (rule round64_tie)
  finally show ?thesis unfolding lerp_quarter_form q .
qed

lemma lerp_quarter_one: "lerp 1 1 (js_mul (1/4) 3) = 1"
  unfolding lerp_quarter_form by (simp add: round64_dyadic)

lemma held_frame_step:
  assumes "ready q"
  shows "revealProgress (useFrame (held_frame d) q) = lerp (revealProgress q) 1 (js_mul d 3)"
    and "ready (useFrame (held_frame d) q)"
  using useFrame_fields(1,5)[OF assms, of "held_frame d" camera]
  by (simp_all add: held_frame_def)

lemma quarter_run:
  assumes "n \<le> 26"
  shows "ready (run_frames (replicate n (held_frame (1/4))) ready_quad)
       \<and> revealProgress (run_frames (replicate n (held_frame (1/4))) ready_quad)
           = 1 - 1 / 2 ^ (2 * n)"
  using assms
proof (induction n)
  case 0
  show ?case by (simp add: ready_quad_simps)
next
  case (Suc n)
  then have IH: "ready (run_frames (replicate n (held_frame (1/4))) ready_quad)"
    "revealProgress (run_frames (replicate n (held_frame (1/4))) ready_quad) = 1 - 1 / 2 ^ (2 * n)"
    by simp_all
  have "replicate (Suc n) (held_frame (1/4)) = replicate n (held_frame (1/4)) @ [held_frame (1/4)]"
    by (simp add: replicate_append_same)
  then have eq: "run_frames (replicate (Suc n) (held_frame (1/4))) ready_quad
      = useFrame (held_frame (1/4)) (run_frames (replicate n (held_frame (1/4))) ready_quad)"
    by (simp only: run_frames_snoc)
  have m: "2 * n \<le> 51" using Suc.prems by simp
  have "revealProgress (useFrame (held_frame (1/4)) (run_frames (replicate n (held_frame (1/4))) ready_quad))
      = 1 - 1 / 2 ^ (2 * n + 2)"
    unfolding held_frame_step(1)[OF IH(1)] IH(2) by (rule lerp_quarter[OF m])
  moreover have "2 * Suc n = 2 * n + 2" by simp
  ultimately show ?case
    unfolding eq using held_frame_step(2)[OF IH(1), of "1/4"] by simp
qed

lemma run_Suc:
  "run_frames (replicate (Suc n) f) q = useFrame f (run_frames (replicate n f) q)"
proof -
  have "replicate (Suc n) f = replicate n f @ [f]" by (simp add: replicate_append_same)
  then show ?thesis by (simp only: run_frames_snoc)
qed

lemma quarter_stall:
  "revealProgress (run_frames (replicate 27 (held_frame (1/4))) ready_quad) = 1"
  "revealProgress (run_frames (replicate 28 (held_frame (1/4))) ready_quad) = 1"
proof -
  let ?f = "held_frame (1/4)"
  have r26: "ready (run_frames (replicate 26 ?f) ready_quad)"
    and v26: "revealProgress (run_frames (replicate 26 ?f) ready_quad) = 1 - 1 / 2 ^ 52"
    using quarter_run[of 26] by simp_all
  have e27: "run_frames (replicate 27 ?f) ready_quad = useFrame ?f (run_frames (replicate 26 ?f) ready_quad)"
    using run_Suc[of 26 ?f ready_quad] by simp
  show v27: "revealProgress (run_frames (replicate 27 ?f) ready_quad) = 1"
    unfolding e27 held_frame_step[OF r26] v26 by (rule lerp_quarter_tie)
  have r27: "ready (run_frames (replicate 27 ?f) ready_quad)"
    unfolding e27 by (rule held_frame_step[OF r26])
  have e28: "run_frames (replicate 28 ?f) ready_quad = useFrame ?f (run_frames (replicate 27 ?f) ready_quad)"
    using run_Suc[of 27 ?f ready_quad] by simp
  show "revealProgress (run_frames (replicate 28 ?f) ready_quad) = 1"
    unfolding e28 held_frame_step[OF r27] v27 by (rule lerp_quarter_one)
qed

lemma half_second_overshoot:
  "revealProgress (useFrame (held_frame (1/2)) ready_quad) = 3/2"
  unfolding held_frame_step[OF ready_quad_simps(1)] ready_quad_simps
  by (simp add: lerp_def js_add_def js_mul_def js_sub_def round64_dyadic round64_zero)

lemma held_held_frame: "0 < d \<Longrightarrow> d \<le> 1/3 \<Longrightarrow> held (held_frame d)"
  by (simp add: held_def held_frame_def)

text \<open>C2, as the specification states it, fails in two ways. The weight \<open>delta * 3.0\<close>
  is not clamped: from 0, one tick with the gesture held and \<open>dt = 0.5\<close> (which is at most
  1.0 second) gives 1.5, above 1.0. And the value does not strictly increase on every tick:
  with \<open>dt = 0.25\<close> on every tick the value is \<open>1 - 1 / 4 ^ n\<close> after tick \<open>n\<close> up to tick
  26, the exact result \<open>1 - 1 / 2 ^ 54\<close> of tick 27 lies half-way between two doubles and
  is rounded to 1.0, and tick 28 leaves the value at 1.0.\<close>

theorem reveal_overshoot_counterexample:
  "fr_isTouchingHead (held_frame (1/2))
   \<and> fr_delta (held_frame (1/2)) \<le> 1
   \<and> revealProgress ready_quad = 0
   \<and> revealProgress (useFrame (held_frame (1/2)) ready_quad) = 3/2
   \<and> 1 < revealProgress (useFrame (held_frame (1/2)) ready_quad)
   \<and> fr_isTouchingHead (held_frame (1/4))
   \<and> fr_delta (held_frame (1/4)) \<le> 1
   \<and> revealProgress (run_frames (replicate 27 (held_frame (1/4))) ready_quad) = 1
   \<and> revealProgress (run_frames (replicate 28 (held_frame (1/4))) ready_quad) = 1"
  by (simp add: half_second_overshoot quarter_stall ready_quad_simps held_frame_simps)

text \<open>C2, amended. For every sequence of ticks with the gesture held and every frame time
  in \<open>0 < dt \<le> 1/3\<close>, starting from a reveal progress of 0 on a quad whose material and
  background exist:
  \<^item> the reveal progress is never below 0 and never above 1.0, after any number of ticks;
  \<^item> every tick yields the exact interpolation \<open>r + 3 * dt * (1 - r)\<close> up to \<open>2\<^sup>-\<^sup>5\<^sup>2\<close>,
    so the value strictly increases on every tick on which the exact increment
    \<open>3 * dt * (1 - r)\<close> exceeds \<open>2\<^sup>-\<^sup>5\<^sup>2\<close>;
  \<^item> the distance to 1.0 after all the ticks is at most the product of the factors
    \<open>1 - 3 * dt\<close> plus \<open>2\<^sup>-\<^sup>5\<^sup>2\<close> per tick, and, when every frame time is at least \<open>d > 0\<close>,
    at most \<open>(1 - 3 * d) ^ n + 2\<^sup>-\<^sup>5\<^sup>2 / (3 * d)\<close> after \<open>n\<close> ticks.\<close>

theorem reveal_easing:
  assumes "ready q" and "revealProgress q = 0" and "list_all held fs"
  shows "(\<forall>k\<le>length fs.
            0 \<le> revealProgress (run_frames (take k fs) q)
          \<and> revealProgress (run_frames (take k fs) q) \<le> 1)
       \<and> (\<forall>k<length fs.
            \<bar>revealProgress (run_frames (take (Suc k) fs) q)
               - (revealProgress (run_frames (take k fs) q)
                    + 3 * fr_delta (fs ! k) * (1 - revealProgress (run_frames (take k fs) q)))\<bar>
              \<le> 1 / 2 ^ 52
          \<and> (1 / 2 ^ 52 < 3 * fr_delta (fs ! k) * (1 - revealProgress (run_frames (take k fs) q))
               \<longrightarrow> revealProgress (run_frames (take k fs) q)
                     < revealProgress (run_frames (take (Suc k) fs) q)))
       \<and> 1 - revealProgress (run_frames fs q)
           \<le> prod_list (map (\<lambda>f. 1 - 3 * fr_delta f) fs) + real (length fs) / 2 ^ 52
       \<and> (\<forall>d. 0 < d \<and> list_all (\<lambda>f. d \<le> fr_delta f) fs \<longrightarrow>
            1 - revealProgress (run_frames fs q)
              \<le> (1 - 3 * d) ^ length fs + 1 / (2 ^ 52 * 3 * d))"
proof -
  have D: "1 - revealProgress (run_frames fs q)
           \<le> prod_list (map (\<lambda>f. 1 - 3 * fr_delta f) fs) + real (length fs) / 2 ^ 52"
    using run_frames_decay[OF assms(1) _ _ assms(3)] assms(2) by simp
  have A: "0 \<le> revealProgress (run_frames (take k fs) q)
          \<and> revealProgress (run_frames (take k fs) q) \<le> 1" for k
  proof -
    have hk: "list_all held (take k fs)"
      using assms(3) by (auto simp: list_all_iff dest: in_set_takeD)
    from run_frames_unit[OF assms(1) _ _ hk] assms(2) show ?thesis by simp
  qed
  have B: "\<bar>revealProgress (run_frames (take (Suc k) fs) q)
               - (revealProgress (run_frames (take k fs) q)
                    + 3 * fr_delta (fs ! k) * (1 - revealProgress (run_frames (take k fs) q)))\<bar>
              \<le> 1 / 2 ^ 52
          \<and> (1 / 2 ^ 52 < 3 * fr_delta (fs ! k) * (1 - revealProgress (run_frames (take k fs) q))
               \<longrightarrow> revealProgress (run_frames (take k fs) q)
                     < revealProgress (run_frames (take (Suc k) fs) q))"
    if k: "k < length fs" for k
  proof -
    have hk: "list_all held (take k fs)" and h: "held (fs ! k)"
      using assms(3) k by (auto simp: list_all_iff dest: in_set_takeD)
    from run_frames_unit[OF assms(1) _ _ hk] assms(2)
    have r: "ready (run_frames (take k fs) q)"
      and b: "0 \<le> revealProgress (run_frames (take k fs) q)"
        "revealProgress (run_frames (take k fs) q) \<le> 1"
      by simp_all
    have eq: "run_frames (take (Suc k) fs) q = useFrame (fs ! k) (run_frames (take k fs) q)"
      using k by (simp add: take_Suc_conv_app_nth run_frames_snoc)
    have e: "\<bar>revealProgress (run_frames (take (Suc k) fs) q)
               - (revealProgress (run_frames (take k fs) q)
                    + 3 * fr_delta (fs ! k) * (1 - revealProgress (run_frames (take k fs) q)))\<bar>
              \<le> 1 / 2 ^ 52"
      unfolding eq by (rule reveal_step(4)[OF r h b])
    from e have "- (revealProgress (run_frames (take (Suc k) fs) q)
               - (revealProgress (run_frames (take k fs) q)
                    + 3 * fr_delta (fs ! k) * (1 - revealProgress (run_frames (take k fs) q))))
              \<le> 1 / 2 ^ 52"
      by (rule abs_le_D2)
    then have "1 / 2 ^ 52 < 3 * fr_delta (fs ! k) * (1 - revealProgress (run_frames (take k fs) q))
               \<longrightarrow> revealProgress (run_frames (take k fs) q)
                     < revealProgress (run_frames (take (Suc k) fs) q)"
      by linarith
    with e show ?thesis by (rule conjI)
  qed
  have C: "1 - revealProgress (run_frames fs q)
              \<le> (1 - 3 * d) ^ length fs + 1 / (2 ^ 52 * 3 * d)"
    if d: "0 < d \<and> list_all (\<lambda>f. d \<le> fr_delta f) fs" for d
  proof -
    define E where "E = 1 / (2 ^ 52 * 3 * d)"
    have E: "0 \<le> E" using d by (simp add: E_def)
    have p: "0 \<le> (1 - 3 * d) ^ length fs"
    proof (cases fs)
      case Nil
      then show ?thesis by simp
    next
      case (Cons f fs')
      with assms(3) d have "d \<le> fr_delta f" "fr_delta f \<le> 1/3" by (simp_all add: held_def)
      then have "0 \<le> 1 - 3 * d" by simp
      then show ?thesis by simp
    qed
    have z: "0 \<le> revealProgress q" "revealProgress q \<le> 1" using assms(2) by simp_all
    have "1 - revealProgress (run_frames fs q) - E
          \<le> (1 - 3 * d) ^ length fs * (1 - revealProgress q - E)"
      unfolding E_def using d by (intro run_frames_approach[OF assms(1) z assms(3)]) simp_all
    also have "\<dots> = (1 - 3 * d) ^ length fs - (1 - 3 * d) ^ length fs * E"
      using assms(2) by (simp add: algebra_simps)
    also have "\<dots> \<le> (1 - 3 * d) ^ length fs" using p E by simp
    finally show ?thesis by (simp add: E_def)
  qed
  from A B C D show ?thesis by blast
qed

theorem reveal_easing_witness:
  "ready ready_quad \<and> revealProgress ready_quad = 0
   \<and> list_all held [held_frame (1/4), held_frame (1/4)]
   \<and> revealProgress (run_frames [held_frame (1/4)] ready_quad) = 3/4
   \<and> revealProgress (run_frames [held_frame (1/4), held_frame (1/4)] ready_quad) = 15/16
   \<and> 0 \<le> revealProgress (run_frames [held_frame (1/4), held_frame (1/4)] ready_quad)
   \<and> revealProgress (run_frames [held_frame (1/4), held_frame (1/4)] ready_quad) \<le> 1
   \<and> revealProgress (run_frames [held_frame (1/4)] ready_quad)
        < revealProgress (run_frames [held_frame (1/4), held_frame (1/4)] ready_quad)
   \<and> 1 - revealProgress (run_frames [held_frame (1/4), held_frame (1/4)] ready_quad)
        \<le> (1 - 3 * (1/4)) * (1 - 3 * (1/4)) + 2 / 2 ^ 52
   \<and> 1 - revealProgress (run_frames [held_frame (1/4), held_frame (1/4)] ready_quad)
        \<le> (1 - 3 * (1/4)) ^ 2 + 1 / (2 ^ 52 * 3 * (1/4))"
proof -
  let ?f = "held_frame (1/4)"
  have h: "held ?f" by (simp add: held_held_frame)
  have l: "list_all held [?f, ?f]" using h by simp
  note T = reveal_easing[OF ready_quad_simps(1,2) l]
  have v1: "revealProgress (run_frames [?f] ready_quad) = 3/4"
    using quarter_run[of 1] by simp
  have v2: "revealProgress (run_frames [?f, ?f] ready_quad) = 15/16"
    using quarter_run[of 2] by (simp add: numeral_2_eq_2)
  have a: "0 \<le> revealProgress (run_frames [?f, ?f] ready_quad)
         \<and> revealProgress (run_frames [?f, ?f] ready_quad) \<le> 1"
    using T[THEN conjunct1, rule_format, of 2] by simp
  have "1 / 2 ^ 52 < 3 * fr_delta ([?f, ?f] ! 1) * (1 - revealProgress (run_frames (take 1 [?f, ?f]) ready_quad))
        \<longrightarrow> revealProgress (run_frames (take 1 [?f, ?f]) ready_quad)
              < revealProgress (run_frames (take (Suc 1) [?f, ?f]) ready_quad)"
    using T[THEN conjunct2, THEN conjunct1, rule_format, of 1] by simp
  then have b: "revealProgress (run_frames [?f] ready_quad)
        < revealProgress (run_frames [?f, ?f] ready_quad)"
    using v1 by (simp add: held_frame_simps)
  have c: "1 - revealProgress (run_frames [?f, ?f] ready_quad)
        \<le> (1 - 3 * (1/4)) * (1 - 3 * (1/4)) + 2 / 2 ^ 52"
    using T[THEN conjunct2, THEN conjunct2, THEN conjunct1] by (simp add: held_frame_simps)
  have d: "1 - revealProgress (run_frames [?f, ?f] ready_quad)
        \<le> (1 - 3 * (1/4)) ^ 2 + 1 / (2 ^ 52 * 3 * (1/4))"
  proof -
    have "0 < (1/4::real) \<and> list_all (\<lambda>f. 1/4 \<le> fr_delta f) [?f, ?f]"
      by (simp add: held_frame_simps)
    then have "1 - revealProgress (run_frames [?f, ?f] ready_quad)
        \<le> (1 - 3 * (1/4)) ^ length [?f, ?f] + 1 / (2 ^ 52 * 3 * (1/4))"
      by (rule T[THEN conjunct2, THEN conjunct2, THEN conjunct2, rule_format])
    then show ?thesis by (simp add: numeral_2_eq_2)
  qed
  from l v1 v2 a b c d show ?thesis by (simp only: ready_quad_simps(1,2) simp_thms)
qed

subsection \<open>Compositing shader\<close>

lemma mix_zero: "mix x y 0 = x"
  by (cases x; cases y) (simp add: mix1_def)

lemma empty_mask_edge: "isEdge (empty_mask_uniforms r) p = 0"
  by (cases p) (simp add: isEdge_def edgeMag_def empty_mask_uniforms_def smoothstep_def clamp_def
      Let_def)

text \<open>
  C3. At a pixel where the sampled mask value is 0, the colour the shader writes is the
  edge blend (the clean background mixed with the liquid colour by the edge intensity),
  for every value of the reveal factor: the live video colour contributes nothing outside
  the mask.
\<close>

theorem no_leak_outside_mask:
  assumes "maskVal u vUv = 0"
  shows "fragmentShader u vUv = edgeBlend u vUv"
  using assms by (simp add: fragmentShader_def mix_zero)

theorem no_leak_outside_mask_witness:
  "maskVal (empty_mask_uniforms 1) (1/2, 1/2) = 0
   \<and> fragmentShader (empty_mask_uniforms 1) (1/2, 1/2)
       = edgeBlend (empty_mask_uniforms 1) (1/2, 1/2)
   \<and> fragmentShader (empty_mask_uniforms 1) (1/2, 1/2) = (1/2, 1/2, 1/2, 1)"
proof -
  have m: "maskVal (empty_mask_uniforms 1) (1/2, 1/2) = 0"
    by (simp add: maskVal_def empty_mask_uniforms_def)
  have e: "edgeBlend (empty_mask_uniforms 1) (1/2, 1/2) = (1/2, 1/2, 1/2, 1)"
    unfolding edgeBlend_def empty_mask_edge mix_zero
    by (simp add: cleanBg_def empty_mask_uniforms_def)
  from no_leak_outside_mask[OF m] m e show ?thesis by simp
qed

text \<open>The edge intensity is a weight between 0 and 1.\<close>

lemma edge_intensity_bounds: "0 \<le> isEdge u p \<and> isEdge u p \<le> 1"
proof -
  define t where "t = clamp ((edgeMag u p - 0) / (2.5 - 0)) 0 1"
  have t: "0 \<le> t" "t \<le> 1" by (simp_all add: t_def clamp_def)
  have "isEdge u p = t * t * (3 - 2 * t)"
    by (simp add: isEdge_def smoothstep_def t_def Let_def)
  moreover have "0 \<le> t * t * (3 - 2 * t)" using t by simp
  moreover have "t * t * (3 - 2 * t) \<le> 1"
  proof -
    have "1 - t * t * (3 - 2 * t) = (1 - t) * (1 - t) * (1 + 2 * t)"
      by (simp add: algebra_simps)
    moreover have "0 \<le> (1 - t) * (1 - t) * (1 + 2 * t)" using t by simp
    ultimately show ?thesis by simp
  qed
  ultimately show ?thesis by simp
qed

lemma spec_gradient_sobel:
  "spec_gradient m (a, b) (tx, ty) =
     ((red (m (a + 5 * tx, b + 5 * ty)) + 2 * red (m (a + 5 * tx, b)) + red (m (a + 5 * tx, b - 5 * ty)))
        - (red (m (a - 5 * tx, b + 5 * ty)) + 2 * red (m (a - 5 * tx, b)) + red (m (a - 5 * tx, b - 5 * ty))),
      (red (m (a - 5 * tx, b + 5 * ty)) + 2 * red (m (a, b + 5 * ty)) + red (m (a + 5 * tx, b + 5 * ty)))
        - (red (m (a - 5 * tx, b - 5 * ty)) + 2 * red (m (a, b - 5 * ty)) + red (m (a + 5 * tx, b - 5 * ty))))"
  by (simp add: spec_gradient_def neighbours8_def sobel_weight_def spec_sample_def)

lemma edgeMag_spec:
  "edgeMag u vUv = length2 (spec_gradient (uMaskTexture u) vUv (render_pixel u))"
  by (cases vUv) (simp add: edgeMag_def offset_def radius_def Let_def spec_gradient_sobel
      render_pixel_def mult.commute)

text \<open>The host sets the resolution uniform to the size of the canvas on every frame, and
  gives the mask surface the size of the video.\<close>

lemma useFrame_resolution:
  assumes "ready q" and "fr_videoElement f = Some v"
  shows "map_option uResolution (materialRef (useFrame f q)) = Some (fr_size f)"
proof -
  from assms(1) obtain u bg where "materialRef q = Some u" and "bgTexture q = Some bg"
    by (auto simp: ready_def)
  then show ?thesis using assms(2) by (simp add: useFrame_def Let_def updateMask_other)
qed

lemma small_canvas_frame_simps:
  "fr_videoElement small_canvas_frame = Some camera"
  "fr_latestResults small_canvas_frame = Some somebody"
  "fr_ctx2d small_canvas_frame"
  "fr_size small_canvas_frame = (640, 360)"
  by (simp_all add: small_canvas_frame_def mask_frame_def held_frame_def)

lemma small_canvas_mask:
  "maskCanvasRef (useFrame small_canvas_frame ready_quad)
     = \<lparr>cv_width = 1280, cv_height = 720, cv_content = Some 0\<rparr>"
proof -
  note uf = useFrame_fields(2)[OF ready_quad_simps(1) small_canvas_frame_simps(1)]
  have u: "updateMask small_canvas_frame camera ready_quad = ingestMask camera 0 True ready_quad"
    by (simp add: updateMask_def small_canvas_frame_simps somebody_def)
  show ?thesis
    unfolding uf u by (simp add: ingestMask_def Let_def ready_quad_simps camera_def)
qed

lemma sqrt_sixteen: "sqrt 16 = 4"
  by (rule real_sqrt_unique) simp_all

lemma small_canvas_code_edge: "isEdge small_canvas_uniforms (1/2, 1/2) = 1"
proof -
  have "edgeMag small_canvas_uniforms (1/2, 1/2) = 4"
    by (simp add: edgeMag_def offset_def radius_def Let_def small_canvas_uniforms_def
        step_mask_def sqrt_sixteen)
  then show ?thesis by (simp add: isEdge_def smoothstep_def clamp_def Let_def)
qed

lemma small_canvas_spec_edge:
  "spec_edge_intensity (1/1280, 1/720) small_canvas_uniforms (1/2, 1/2) = 0"
  by (simp add: spec_edge_intensity_def spec_gradient_sobel small_canvas_uniforms_def
      step_mask_def smoothstep_def clamp_def Let_def)

text \<open>
  C4, as the specification states it, fails: the sampling radius of the shader is not 5
  texels of the mask. The shader displaces its samples by \<open>5 / uResolution\<close>, and the host
  sets \<open>uResolution\<close> to the size of the canvas, while the mask surface has the size of the
  video. On a canvas 640 pixels wide showing a mask 1280 texels wide whose edge lies 6
  texels to the right of the pixel, the shader's edge intensity is 1, and the edge
  intensity of a gradient sampled at a radius of 5 texels of the mask is 0.
\<close>

theorem edge_radius_counterexample:
  "map_option uResolution (materialRef (useFrame small_canvas_frame ready_quad))
     = Some (uResolution small_canvas_uniforms)
   \<and> uResolution small_canvas_uniforms = (640, 360)
   \<and> cv_width (maskCanvasRef (useFrame small_canvas_frame ready_quad)) = 1280
   \<and> cv_height (maskCanvasRef (useFrame small_canvas_frame ready_quad)) = 720
   \<and> mask_texel (maskCanvasRef (useFrame small_canvas_frame ready_quad)) = (1/1280, 1/720)
   \<and> isEdge small_canvas_uniforms (1/2, 1/2) = 1
   \<and> spec_edge_intensity (mask_texel (maskCanvasRef (useFrame small_canvas_frame ready_quad)))
        small_canvas_uniforms (1/2, 1/2) = 0"
proof -
  have r: "map_option uResolution (materialRef (useFrame small_canvas_frame ready_quad))
     = Some (uResolution small_canvas_uniforms)"
    unfolding useFrame_resolution[OF ready_quad_simps(1) small_canvas_frame_simps(1)]
    by (simp add: small_canvas_frame_simps small_canvas_uniforms_def)
  have u: "uResolution small_canvas_uniforms = (640, 360)"
    by (simp add: small_canvas_uniforms_def)
  have t: "mask_texel (maskCanvasRef (useFrame small_canvas_frame ready_quad)) = (1/1280, 1/720)"
    unfolding small_canvas_mask by (simp add: mask_texel_def)
  have w: "cv_width (maskCanvasRef (useFrame small_canvas_frame ready_quad)) = 1280"
    "cv_height (maskCanvasRef (useFrame small_canvas_frame ready_quad)) = 720"
    unfolding small_canvas_mask by simp_all
  have s: "spec_edge_intensity (mask_texel (maskCanvasRef (useFrame small_canvas_frame ready_quad)))
        small_canvas_uniforms (1/2, 1/2) = 0"
    unfolding t by (rule small_canvas_spec_edge)
  from r u w t small_canvas_code_edge s show ?thesis by (intro conjI)
qed

text \<open>
  C4, amended. For every pixel, the shader computes its output in this order: the edge
  intensity is obtained from an 8-neighbour gradient on the mask (cardinal neighbours
  weighted 2, diagonal neighbours 1) sampled at a radius of 5 pixels of the resolution
  uniform, that is at a displacement of \<open>5 / uResolution\<close> in texture coordinates, where
  \<open>uResolution\<close> is the size of the canvas and not the size of the mask surface; the
  gradient's magnitude is mapped through smoothstep over the range 0.0 to 2.5; the output
  starts from the clean background colour, is blended toward the distorted and
  highlighted liquid colour with the edge intensity as the weight, and that result is
  then blended toward the live video colour with the reveal factor times the mask value
  as the final weight.
\<close>

theorem fragmentShader_composition:
  "fragmentShader u vUv = spec_composite (render_pixel u) u vUv"
  by (simp add: fragmentShader_def spec_composite_def edgeBlend_def isEdge_def
      spec_edge_intensity_def edgeMag_spec cleanBg_def personColor_def maskVal_def Let_def)

end
